theory Spec2Isabelle
  imports Main "HOL-Library.Word"
begin

unbundle bit_operations_syntax

section \<open>Data model\<close>

text \<open>
  A region file is a sequence of bytes. The fields of a \<open>Chunk\<close> are Python integers, so
  they are unbounded; the source field \<open>size\<close> is called \<open>size_c\<close> here, since \<open>size\<close>
  is a constant of HOL.
\<close>

type_synonym byte = "8 word"

record Chunk =
  timestamp :: int
  location :: int
  size_c :: int
  chunk_data :: "byte list"

record FilePair =
  from_file :: string
  to_file :: string

datatype error = IndexError | TypeError | FileNotFoundError

text \<open>
  A Python \<open>dict\<close> keeps its keys in insertion order: an association list with distinct
  keys. Assigning to a key that is present keeps the key's position, assigning to a new
  key appends it.
\<close>

type_synonym ('k, 'v) pydict = "('k \<times> 'v) list"

fun dict_set :: "('k, 'v) pydict \<Rightarrow> 'k \<Rightarrow> 'v \<Rightarrow> ('k, 'v) pydict" where
  "dict_set [] k v = [(k, v)]"
| "dict_set ((k', v') # kvs) k v =
     (if k' = k then (k', v) # kvs else (k', v') # dict_set kvs k v)"

definition dict_values :: "('k, 'v) pydict \<Rightarrow> 'v list" where
  "dict_values d = map snd d"

definition dict_contains :: "('k, 'v) pydict \<Rightarrow> 'k \<Rightarrow> bool" where
  "dict_contains d k = (map_of d k \<noteq> None)"

type_synonym chunk_map = "(nat, Chunk) pydict"

section \<open>Merge rules\<close>

datatype MergeRule = MergeRuleAlways | MergeRuleNever | MergeRuleNewestChunks

fun is_allowed_to_merge :: "MergeRule \<Rightarrow> Chunk \<Rightarrow> Chunk \<Rightarrow> bool" where
  "is_allowed_to_merge MergeRuleAlways current_chunk new_chunk = True"
| "is_allowed_to_merge MergeRuleNever current_chunk new_chunk = False"
| "is_allowed_to_merge MergeRuleNewestChunks current_chunk new_chunk =
     (timestamp new_chunk > timestamp current_chunk)"

section \<open>McaFile.merge\<close>

text \<open>
  The loop of \<open>McaFile.merge\<close> over \<open>other.chunk_map.items()\<close>; the first argument is
  \<open>self.chunk_map\<close>, returned updated.
\<close>

fun merge :: "chunk_map \<Rightarrow> chunk_map \<Rightarrow> MergeRule \<Rightarrow> chunk_map" where
  "merge self_map [] rule = self_map"
| "merge self_map ((pos, new_chunk) # other) rule =
     (if dict_contains self_map pos then
        (case map_of self_map pos of
           Some current_chunk \<Rightarrow>
             if is_allowed_to_merge rule current_chunk new_chunk
             then merge (dict_set self_map pos new_chunk) other rule
             else merge self_map other rule
         | None \<Rightarrow> merge self_map other rule)
      else merge (dict_set self_map pos new_chunk) other rule)"


section \<open>Python sequences\<close>

text \<open>
  A slice bound of Python: a negative bound counts from the end, and every bound is
  clamped to the length of the sequence.
\<close>

definition slice_index :: "int \<Rightarrow> nat \<Rightarrow> nat" where
  "slice_index i n = (if i < 0 then nat (i + int n) else min (nat i) n)"

definition py_slice :: "'a list \<Rightarrow> int \<Rightarrow> int \<Rightarrow> 'a list" where
  "py_slice xs start stop =
     (let lo = slice_index start (length xs); hi = slice_index stop (length xs)
      in take (hi - lo) (drop lo xs))"

text \<open>
  \<open>xs[start:stop] = ys\<close> on a \<open>bytearray\<close>: the slice is replaced by \<open>ys\<close>, whatever
  the two lengths are, so the sequence can grow or shrink.
\<close>

definition py_slice_assign :: "'a list \<Rightarrow> int \<Rightarrow> int \<Rightarrow> 'a list \<Rightarrow> 'a list" where
  "py_slice_assign xs start stop ys =
     (let lo = slice_index start (length xs); hi = max lo (slice_index stop (length xs))
      in take lo xs @ ys @ drop hi xs)"

text \<open>\<open>arr[i] = v\<close> on a \<open>bytearray\<close>, for an index that is not negative.\<close>

definition bytearray_set :: "byte list \<Rightarrow> nat \<Rightarrow> int \<Rightarrow> error + byte list" where
  "bytearray_set arr i v =
     (if i < length arr then Inr (arr[i := word_of_int v]) else Inl IndexError)"

text \<open>\<open>range(0, n, 4)\<close>.\<close>

definition range_step4 :: "nat \<Rightarrow> nat list" where
  "range_step4 n = map (\<lambda>k. 4 * k) [0..<(n + 3) div 4]"

definition bind_err :: "error + 'a \<Rightarrow> ('a \<Rightarrow> error + 'b) \<Rightarrow> error + 'b" where
  "bind_err m f = (case m of Inl e \<Rightarrow> Inl e | Inr x \<Rightarrow> f x)"

section \<open>McaFile.write\<close>

fun update_chunk_locations_from :: "int \<Rightarrow> chunk_map \<Rightarrow> chunk_map" where
  "update_chunk_locations_from current_address [] = []"
| "update_chunk_locations_from current_address ((pos, chunk) # rest) =
     (pos, chunk\<lparr>location := current_address\<rparr>)
       # update_chunk_locations_from (current_address + size_c chunk) rest"

definition update_chunk_locations :: "chunk_map \<Rightarrow> chunk_map" where
  "update_chunk_locations chunk_map = update_chunk_locations_from 2 chunk_map"

definition set_timestamp :: "byte list \<Rightarrow> nat \<Rightarrow> Chunk \<Rightarrow> error + byte list" where
  "set_timestamp timestamps pos chunk =
     bind_err (bytearray_set timestamps pos (drop_bit 24 (timestamp chunk) AND 255)) (\<lambda>t1.
     bind_err (bytearray_set t1 (pos + 1) (drop_bit 16 (timestamp chunk) AND 255)) (\<lambda>t2.
     bind_err (bytearray_set t2 (pos + 2) (drop_bit 8 (timestamp chunk) AND 255)) (\<lambda>t3.
     bytearray_set t3 (pos + 3) (timestamp chunk AND 255))))"

definition set_location :: "byte list \<Rightarrow> nat \<Rightarrow> Chunk \<Rightarrow> error + byte list" where
  "set_location locations pos chunk =
     bind_err (bytearray_set locations pos (drop_bit 16 (location chunk) AND 255)) (\<lambda>l1.
     bind_err (bytearray_set l1 (pos + 1) (drop_bit 8 (location chunk) AND 255)) (\<lambda>l2.
     bind_err (bytearray_set l2 (pos + 2) (location chunk AND 255)) (\<lambda>l3.
     bytearray_set l3 (pos + 3) (size_c chunk AND 255))))"

text \<open>The loop of \<open>join\<close> over \<open>data_list.items()\<close>.\<close>

fun join_loop :: "(int, byte list) pydict \<Rightarrow> byte list \<Rightarrow> byte list" where
  "join_loop [] res = res"
| "join_loop ((i, data) # rest) res =
     (let pos = i * 4096
      in join_loop rest (py_slice_assign res pos (pos + int (length data)) data))"

definition join ::
  "byte list \<Rightarrow> byte list \<Rightarrow> (int, byte list) pydict \<Rightarrow> int \<Rightarrow> byte list" where
  "join locations timestamps data_list max_pos =
     (let total_bytes = int (length locations) + int (length timestamps) + max_pos;
          res0 = replicate (nat total_bytes) (0 :: byte);
          res1 = py_slice_assign res0 0 (int (length locations)) locations;
          res2 = py_slice_assign res1 4096 (4096 * 2) timestamps
      in join_loop data_list res2)"

text \<open>
  The loop of \<open>write\<close> over \<open>self.chunk_map.items()\<close>, on the two header tables, the
  dictionary of payloads keyed by location, and \<open>max_pos\<close>.
\<close>

fun write_loop ::
  "chunk_map \<Rightarrow> byte list \<Rightarrow> byte list \<Rightarrow> (int, byte list) pydict \<Rightarrow> int \<Rightarrow>
   error + (byte list \<times> byte list \<times> (int, byte list) pydict \<times> int)" where
  "write_loop [] locations timestamps chunk_data_list max_pos =
     Inr (locations, timestamps, chunk_data_list, max_pos)"
| "write_loop ((pos, chunk) # rest) locations timestamps chunk_data_list max_pos =
     bind_err (set_location locations pos chunk) (\<lambda>locations'.
     bind_err (set_timestamp timestamps pos chunk) (\<lambda>timestamps'.
       let chunk_data_list' = dict_set chunk_data_list (location chunk) (chunk_data chunk);
           byte_position = (size_c chunk + location chunk - 2) * 4096
       in write_loop rest locations' timestamps' chunk_data_list'
            (if byte_position > max_pos then byte_position else max_pos)))"

text \<open>
  \<open>write\<close> returns the chunk map as \<open>update_chunk_locations\<close> leaves it (the locations
  are overwritten in place) and the bytes written to the file.
\<close>

definition "write" :: "chunk_map \<Rightarrow> error + (chunk_map \<times> byte list)" where
  "write chunk_map =
     (let chunk_map' = update_chunk_locations chunk_map
      in bind_err (write_loop chunk_map' (replicate 4096 0) (replicate 4096 0) [] 0)
           (\<lambda>(locations, timestamps, chunk_data_list, max_pos).
              Inr (chunk_map', join locations timestamps chunk_data_list max_pos)))"

section \<open>McaFile.read_file\<close>

function bytes_to_int_loop :: "byte list \<Rightarrow> nat \<Rightarrow> nat \<Rightarrow> int \<Rightarrow> error + int" where
  "bytes_to_int_loop arr start end_pos res =
     (if start \<le> end_pos then
        (if start < length arr
         then bytes_to_int_loop arr (Suc start) end_pos
                (res OR push_bit ((end_pos - start) * 8) (uint (arr ! start) AND 255))
         else Inl IndexError)
      else Inr res)"
  by pat_completeness auto
termination
  by (relation "measure (\<lambda>(arr, start, end_pos, res). Suc end_pos - start)") auto

declare bytes_to_int_loop.simps [simp del]

definition bytes_to_int :: "byte list \<Rightarrow> nat \<Rightarrow> nat \<Rightarrow> error + int" where
  "bytes_to_int arr start end_pos = bytes_to_int_loop arr start end_pos 0"

text \<open>The loop of \<open>read_file\<close> over \<open>range(0, len(locations), 4)\<close>.\<close>

fun read_loop ::
  "byte list \<Rightarrow> byte list \<Rightarrow> byte list \<Rightarrow> nat list \<Rightarrow> chunk_map \<Rightarrow> error + chunk_map" where
  "read_loop locations timestamps chunk_data_array [] chunk_map = Inr chunk_map"
| "read_loop locations timestamps chunk_data_array (i # rest) chunk_map =
     bind_err (bytes_to_int timestamps i (i + 3)) (\<lambda>ts.
     bind_err (bytes_to_int locations i (i + 2)) (\<lambda>loc.
       if i + 3 < length locations then
         (let sz = uint (locations ! (i + 3)) AND 255
          in if sz = 0 then read_loop locations timestamps chunk_data_array rest chunk_map
             else
               (let chunk_data_start = (loc - 2) * 4096;
                    chunk_data_end = (loc + sz - 2) * 4096;
                    data = py_slice chunk_data_array chunk_data_start chunk_data_end
                in read_loop locations timestamps chunk_data_array rest
                     (dict_set chunk_map i
                        \<lparr>timestamp = ts, location = loc, size_c = sz, chunk_data = data\<rparr>)))
       else Inl IndexError))"

definition read_file :: "byte list \<Rightarrow> error + chunk_map" where
  "read_file bytes_data =
     (let locations = take 4096 bytes_data;
          timestamps = take 4096 (drop 4096 bytes_data);
          chunk_data_array = drop (4096 * 2) bytes_data
      in read_loop locations timestamps chunk_data_array (range_step4 (length locations)) [])"

text \<open>
  What one pass of the loop of \<open>read_file\<close> reads at the header position \<open>i\<close> when
  no index is out of range, and what it does to the chunk map. These name the parts of
  the loop body for the facts below.
\<close>

definition entry_timestamp :: "byte list \<Rightarrow> nat \<Rightarrow> int" where
  "entry_timestamp timestamps i =
     push_bit 24 (uint (timestamps ! i)) OR push_bit 16 (uint (timestamps ! (i + 1))) OR
     push_bit 8 (uint (timestamps ! (i + 2))) OR uint (timestamps ! (i + 3))"

definition entry_location :: "byte list \<Rightarrow> nat \<Rightarrow> int" where
  "entry_location locations i =
     push_bit 16 (uint (locations ! i)) OR push_bit 8 (uint (locations ! (i + 1))) OR
     uint (locations ! (i + 2))"

definition entry_size :: "byte list \<Rightarrow> nat \<Rightarrow> int" where
  "entry_size locations i = uint (locations ! (i + 3))"

definition entry_chunk :: "byte list \<Rightarrow> byte list \<Rightarrow> byte list \<Rightarrow> nat \<Rightarrow> Chunk" where
  "entry_chunk locations timestamps chunk_data_array i =
     \<lparr>timestamp = entry_timestamp timestamps i,
      location = entry_location locations i,
      size_c = entry_size locations i,
      chunk_data = py_slice chunk_data_array
        ((entry_location locations i - 2) * 4096)
        ((entry_location locations i + entry_size locations i - 2) * 4096)\<rparr>"

definition scan_step :: "byte list \<Rightarrow> byte list \<Rightarrow> byte list \<Rightarrow> chunk_map \<Rightarrow> nat \<Rightarrow> chunk_map" where
  "scan_step locations timestamps chunk_data_array chunk_map i =
     (if entry_size locations i = 0 then chunk_map
      else dict_set chunk_map i (entry_chunk locations timestamps chunk_data_array i))"

text \<open>The invariant of the data model: the payload fills its sectors exactly.\<close>

definition payload_fits :: "Chunk \<Rightarrow> bool" where
  "payload_fits c = (int (length (chunk_data c)) = size_c c * 4096)"

text \<open>
  The parts of \<open>write\<close>, named for the facts below: the four bytes that
  \<open>set_location\<close> and \<open>set_timestamp\<close> store for a chunk, a header table after the
  loop of \<open>write\<close>, the dictionary of payloads and \<open>max_pos\<close> after that loop, and a
  payload followed by the zero bytes that \<open>join\<close> leaves up to the end of its sectors.
\<close>

definition location_bytes :: "Chunk \<Rightarrow> byte list" where
  "location_bytes chunk =
     [word_of_int (drop_bit 16 (location chunk) AND 255),
      word_of_int (drop_bit 8 (location chunk) AND 255),
      word_of_int (location chunk AND 255),
      word_of_int (size_c chunk AND 255)]"

definition timestamp_bytes :: "Chunk \<Rightarrow> byte list" where
  "timestamp_bytes chunk =
     [word_of_int (drop_bit 24 (timestamp chunk) AND 255),
      word_of_int (drop_bit 16 (timestamp chunk) AND 255),
      word_of_int (drop_bit 8 (timestamp chunk) AND 255),
      word_of_int (timestamp chunk AND 255)]"

definition write_entry :: "byte list \<Rightarrow> nat \<Rightarrow> byte list \<Rightarrow> byte list" where
  "write_entry arr pos bs =
     arr[pos := bs ! 0, pos + 1 := bs ! 1, pos + 2 := bs ! 2, pos + 3 := bs ! 3]"

definition fill_table :: "(Chunk \<Rightarrow> byte list) \<Rightarrow> chunk_map \<Rightarrow> byte list \<Rightarrow> byte list" where
  "fill_table f chunk_map arr = foldl (\<lambda>a (pos, chunk). write_entry a pos (f chunk)) arr chunk_map"

definition payload_dict :: "(int, byte list) pydict \<Rightarrow> chunk_map \<Rightarrow> (int, byte list) pydict" where
  "payload_dict d chunk_map =
     foldl (\<lambda>d (pos, chunk). dict_set d (location chunk) (chunk_data chunk)) d chunk_map"

definition byte_position :: "Chunk \<Rightarrow> int" where
  "byte_position chunk = (size_c chunk + location chunk - 2) * 4096"

definition max_pos_of :: "int \<Rightarrow> chunk_map \<Rightarrow> int" where
  "max_pos_of m chunk_map =
     foldl (\<lambda>m (pos, chunk). if byte_position chunk > m then byte_position chunk else m)
       m chunk_map"

definition padded_payload :: "Chunk \<Rightarrow> byte list" where
  "padded_payload chunk =
     chunk_data chunk @ replicate (nat (size_c chunk * 4096) - length (chunk_data chunk)) 0"

definition total_sectors :: "chunk_map \<Rightarrow> int" where
  "total_sectors chunk_map = sum_list (map (size_c \<circ> snd) chunk_map)"

text \<open>
  The chunk maps that \<open>read_file\<close> and \<open>merge\<close> produce: the key of slot \<open>k\<close> is the
  offset \<open>4 * k\<close> of its entry in the header tables, from 0 to 4092, and a size is a
  byte that is not 0.
\<close>

definition slot_key :: "nat \<Rightarrow> bool" where
  "slot_key pos = (pos mod 4 = 0 \<and> pos < 4096)"

definition writable :: "chunk_map \<Rightarrow> bool" where
  "writable chunk_map =
     (distinct (map fst chunk_map) \<and>
      (\<forall>(pos, chunk)\<in>set chunk_map.
         slot_key pos \<and> 1 \<le> size_c chunk \<and> size_c chunk \<le> 255 \<and>
         int (length (chunk_data chunk)) \<le> size_c chunk * 4096))"

text \<open>
  A container with valid slots, as the data model has it: besides the above, a payload of
  exactly \<open>size * 4096\<close> bytes and an unsigned 32-bit timestamp.
\<close>

definition valid_container :: "chunk_map \<Rightarrow> bool" where
  "valid_container chunk_map =
     (distinct (map fst chunk_map) \<and>
      (\<forall>(pos, chunk)\<in>set chunk_map.
         slot_key pos \<and> 1 \<le> size_c chunk \<and> size_c chunk \<le> 255 \<and> payload_fits chunk \<and>
         0 \<le> timestamp chunk \<and> timestamp chunk < 2 ^ 32))"

section \<open>Chunk objects shared by reference\<close>

text \<open>
  \<open>McaFile.merge\<close> stores in \<open>self.chunk_map\<close> the very \<open>Chunk\<close> object that
  \<open>other.chunk_map\<close> holds, and \<open>update_chunk_locations\<close> assigns to the field
  \<open>location\<close> of the objects it walks. Here a chunk map holds references into a store
  of \<open>Chunk\<close> objects.
\<close>

type_synonym addr = nat
type_synonym heap = "addr \<Rightarrow> Chunk"
type_synonym ref_map = "(nat, addr) pydict"

definition deref :: "heap \<Rightarrow> ref_map \<Rightarrow> chunk_map" where
  "deref h m = map (\<lambda>(pos, r). (pos, h r)) m"

fun merge_refs :: "heap \<Rightarrow> ref_map \<Rightarrow> ref_map \<Rightarrow> MergeRule \<Rightarrow> ref_map" where
  "merge_refs h self_map [] rule = self_map"
| "merge_refs h self_map ((pos, new_chunk) # other) rule =
     (if dict_contains self_map pos then
        (case map_of self_map pos of
           Some current_chunk \<Rightarrow>
             if is_allowed_to_merge rule (h current_chunk) (h new_chunk)
             then merge_refs h (dict_set self_map pos new_chunk) other rule
             else merge_refs h self_map other rule
         | None \<Rightarrow> merge_refs h self_map other rule)
      else merge_refs h (dict_set self_map pos new_chunk) other rule)"

fun update_chunk_locations_refs :: "int \<Rightarrow> addr list \<Rightarrow> heap \<Rightarrow> heap" where
  "update_chunk_locations_refs current_address [] h = h"
| "update_chunk_locations_refs current_address (chunk # rest) h =
     update_chunk_locations_refs (current_address + size_c (h chunk)) rest
       (h(chunk := (h chunk)\<lparr>location := current_address\<rparr>))"

text \<open>
  One merge-and-write cycle on the store: \<open>target.merge(source, rule)\<close>, then the
  \<open>update_chunk_locations\<close> that \<open>target.write\<close> starts with. The rest of \<open>write\<close>
  assigns to no \<open>Chunk\<close>.
\<close>

definition merge_and_write_refs ::
  "heap \<Rightarrow> ref_map \<Rightarrow> ref_map \<Rightarrow> MergeRule \<Rightarrow> ref_map \<times> heap" where
  "merge_and_write_refs h target source rule =
     (let target' = merge_refs h target source rule
      in (target', update_chunk_locations_refs 2 (dict_values target') h))"

section \<open>RegionFinder\<close>

text \<open>
  \<open>list_mca_files\<close> returns a list of tuples \<open>(file, path, path)\<close>; the directory walk
  itself is outside the program, so the two lists are parameters here. \<open>name in f1\<close>
  compares a string with the elements of such a list, by Python's \<open>==\<close> on values.
\<close>

datatype pyval = Str string | Tuple "pyval list"

type_synonym mca_entry = "string \<times> string \<times> string"

fun entry_val :: "mca_entry \<Rightarrow> pyval" where
  "entry_val (file, path, path') = Tuple [Str file, Str path, Str path']"

definition py_in :: "pyval \<Rightarrow> pyval list \<Rightarrow> bool" where
  "py_in x xs = (x \<in> set xs)"

text \<open>\<open>os.path.join\<close> of two components, on POSIX.\<close>

definition path_join :: "string \<Rightarrow> string \<Rightarrow> string" where
  "path_join a b =
     (if b \<noteq> [] \<and> hd b = CHR ''/'' then b
      else if a = [] \<or> last a = CHR ''/'' then a @ b
      else a @ ''/'' @ b)"

text \<open>
  The loop of \<open>merge_dimension\<close> over \<open>f2\<close>. Indexing the list \<open>f1\<close> with a string, as
  \<open>f1[name]\<close> does, raises \<open>TypeError\<close>.
\<close>

fun pair_loop ::
  "string \<Rightarrow> mca_entry list \<Rightarrow> mca_entry list \<Rightarrow> FilePair list \<Rightarrow> FilePair list \<Rightarrow>
   error + (FilePair list \<times> FilePair list)" where
  "pair_loop world1_dim_path f1 [] files_to_copy files_to_merge =
     Inr (files_to_copy, files_to_merge)"
| "pair_loop world1_dim_path f1 ((name, from_file', to_file') # f2) files_to_copy files_to_merge =
     (if py_in (Str name) (map entry_val f1) then Inl TypeError
      else pair_loop world1_dim_path f1 f2
             (files_to_copy @
                [\<lparr>from_file = from_file', to_file = path_join world1_dim_path name\<rparr>])
             files_to_merge)"

text \<open>
  The file system is a map from paths to contents. Opening a missing file for reading
  raises; opening a file for writing empties it first.
\<close>

type_synonym fs = "string \<rightharpoonup> byte list"

fun RegionFinder_copy :: "FilePair list \<Rightarrow> fs \<Rightarrow> fs" where
  "RegionFinder_copy [] files = files"
| "RegionFinder_copy (pair # rest) files =
     (case files (from_file pair) of
        None \<Rightarrow> RegionFinder_copy rest files
      | Some _ \<Rightarrow>
          (let opened = files(to_file pair \<mapsto> [])
           in case opened (from_file pair) of
                None \<Rightarrow> RegionFinder_copy rest opened
              | Some content \<Rightarrow> RegionFinder_copy rest (opened(to_file pair \<mapsto> content))))"

definition McaFile_init :: "fs \<Rightarrow> string \<Rightarrow> error + chunk_map" where
  "McaFile_init files file_path =
     (case files file_path of None \<Rightarrow> Inl FileNotFoundError | Some bytes_data \<Rightarrow> read_file bytes_data)"

fun RegionFinder_merge :: "FilePair list \<Rightarrow> MergeRule \<Rightarrow> fs \<Rightarrow> fs" where
  "RegionFinder_merge [] rule files = files"
| "RegionFinder_merge (pair # rest) rule files =
     (case bind_err (McaFile_init files (to_file pair)) (\<lambda>target.
           bind_err (McaFile_init files (from_file pair)) (\<lambda>source.
           write (merge target source rule))) of
        Inl e \<Rightarrow> RegionFinder_merge rest rule files
      | Inr (chunk_map, to_write) \<Rightarrow>
          RegionFinder_merge rest rule (files(to_file pair \<mapsto> to_write)))"

text \<open>
  \<open>str.lower\<close> on the characters below 256: the capital letters of ASCII and of Latin-1
  move up by 32, every other character stays.
\<close>

definition lower_char :: "char \<Rightarrow> char" where
  "lower_char c =
     (let n = (of_char c :: nat)
      in if (65 \<le> n \<and> n \<le> 90) \<or> (192 \<le> n \<and> n \<le> 222 \<and> n \<noteq> 215)
         then char_of (n + 32) else c)"

definition lower :: "string \<Rightarrow> string" where
  "lower s = map lower_char s"

text \<open>
  \<open>merge_dimension\<close>, from the two file lists on: it returns what it did (the prompt
  and the calls of \<open>copy\<close> and \<open>merge\<close>) and the file system it leaves. \<open>user_input\<close>
  is the line that \<open>input\<close> returns when it is called.
\<close>

datatype event = Prompt | Call_copy "FilePair list" | Call_merge "FilePair list" MergeRule

definition merge_dimension ::
  "string \<Rightarrow> mca_entry list \<Rightarrow> mca_entry list \<Rightarrow> MergeRule \<Rightarrow> string \<Rightarrow> fs \<Rightarrow>
   error + (event list \<times> fs)" where
  "merge_dimension world1_dim_path f1 f2 rule user_input files =
     bind_err (pair_loop world1_dim_path f1 f2 [] []) (\<lambda>(files_to_copy, files_to_merge).
       if files_to_copy \<noteq> [] \<or> files_to_merge \<noteq> [] then
         (if lower user_input = ''y''
          then Inr ([Prompt, Call_copy files_to_copy, Call_merge files_to_merge rule],
                    RegionFinder_merge files_to_merge rule (RegionFinder_copy files_to_copy files))
          else Inr ([Prompt], files))
       else Inr ([], files))"

section \<open>Facts about dictionaries\<close>

lemma map_of_dict_set: "map_of (dict_set d k v) = (map_of d)(k \<mapsto> v)"
  by (induction d) (auto simp: fun_eq_iff)

lemma dict_set_present:
  "k \<in> set (map fst d) \<Longrightarrow> map fst (dict_set d k v) = map fst d"
proof (induction d)
  case Nil
  then show ?case by simp
next
  case (Cons e d)
  show ?case
  proof (cases "fst e = k")
    case True
    then show ?thesis by (cases e) simp
  next
    case False
    with Cons.prems have "k \<in> set (map fst d)" by auto
    with Cons.IH False show ?thesis by (cases e) simp
  qed
qed

lemma dict_set_absent: "k \<notin> set (map fst d) \<Longrightarrow> dict_set d k v = d @ [(k, v)]"
  by (induction d) auto

lemma dict_contains_iff: "dict_contains d k \<longleftrightarrow> k \<in> set (map fst d)"
  by (simp add: dict_contains_def map_of_eq_None_iff)

lemma distinct_dict_set:
  "distinct (map fst d) \<Longrightarrow> distinct (map fst (dict_set d k v))"
  by (cases "k \<in> set (map fst d)") (simp_all add: dict_set_present dict_set_absent)

section \<open>Facts about merge\<close>

lemma merge_keys:
  "distinct (map fst other) \<Longrightarrow>
   map fst (merge self_map other rule) =
   map fst self_map @ filter (\<lambda>k. k \<notin> set (map fst self_map)) (map fst other)"
proof (induction other arbitrary: self_map)
  case Nil
  then show ?case by simp
next
  case (Cons e other)
  obtain pos new_chunk where e: "e = (pos, new_chunk)" by (cases e)
  from Cons.prems e have fresh: "pos \<notin> set (map fst other)" and d: "distinct (map fst other)"
    by simp_all
  show ?case
  proof (cases "pos \<in> set (map fst self_map)")
    case True
    then have k: "map fst (dict_set self_map pos new_chunk) = map fst self_map"
      by (rule dict_set_present)
    from True obtain c where c: "map_of self_map pos = Some c"
      by (metis dict_contains_def dict_contains_iff not_None_eq)
    show ?thesis
    proof (cases "is_allowed_to_merge rule c new_chunk")
      case allowed: True
      have "map fst (merge (dict_set self_map pos new_chunk) other rule) =
            map fst self_map @ filter (\<lambda>k. k \<notin> set (map fst self_map)) (map fst other)"
        using Cons.IH [OF d, of "dict_set self_map pos new_chunk"] k by simp
      with True c allowed e show ?thesis by (simp add: dict_contains_iff)
    next
      case False
      with True c e Cons.IH [OF d, of self_map] show ?thesis
        by (simp add: dict_contains_iff)
    qed
  next
    case False
    then have a: "dict_set self_map pos new_chunk = self_map @ [(pos, new_chunk)]"
      by (rule dict_set_absent)
    have f: "filter (\<lambda>k. k \<notin> set (map fst (self_map @ [(pos, new_chunk)]))) (map fst other) =
             filter (\<lambda>k. k \<notin> set (map fst self_map)) (map fst other)"
      using fresh by (intro filter_cong) auto
    have "map fst (merge (self_map @ [(pos, new_chunk)]) other rule) =
          map fst self_map @ pos # filter (\<lambda>k. k \<notin> set (map fst self_map)) (map fst other)"
      using Cons.IH [OF d, of "self_map @ [(pos, new_chunk)]"] f by simp
    with False a e show ?thesis by (simp add: dict_contains_iff)
  qed
qed

lemma merge_lookup:
  "distinct (map fst other) \<Longrightarrow>
   map_of (merge self_map other rule) k =
     (case map_of other k of
        None \<Rightarrow> map_of self_map k
      | Some new_chunk \<Rightarrow>
          (case map_of self_map k of
             None \<Rightarrow> Some new_chunk
           | Some current_chunk \<Rightarrow>
               if is_allowed_to_merge rule current_chunk new_chunk
               then Some new_chunk else Some current_chunk))"
proof (induction other arbitrary: self_map)
  case Nil
  then show ?case by simp
next
  case (Cons e other)
  obtain pos new_chunk where e: "e = (pos, new_chunk)" by (cases e)
  from Cons.prems e have fresh: "map_of other pos = None" and d: "distinct (map fst other)"
    by (simp_all add: map_of_eq_None_iff)
  show ?case
  proof (cases "k = pos")
    case True
    then show ?thesis
      using e fresh Cons.IH [OF d]
      by (auto simp: dict_contains_def map_of_dict_set split: option.splits)
  next
    case False
    then show ?thesis
      using e Cons.IH [OF d]
      by (auto simp: dict_contains_def map_of_dict_set split: option.splits)
  qed
qed

section \<open>Facts about the file pairing and the confirmation\<close>

lemma py_in_entry: "\<not> py_in (Str name) (map entry_val f1)"
  by (induction f1) (auto simp: py_in_def)

lemma pair_loop_all_copy:
  "pair_loop p f1 f2 files_to_copy files_to_merge =
   Inr (files_to_copy @
          map (\<lambda>(name, from_file', to_file'). \<lparr>from_file = from_file', to_file = path_join p name\<rparr>) f2,
        files_to_merge)"
  by (induction f2 arbitrary: files_to_copy) (auto simp: py_in_entry)

lemma lower_char_y: "lower_char c = CHR ''y'' \<longleftrightarrow> c = CHR ''y'' \<or> c = CHR ''Y''"
proof -
  have y: "of_char (CHR ''y'') = (121::nat)" "of_char (CHR ''Y'') = (89::nat)" by simp_all
  show ?thesis
  proof (cases "(65 \<le> (of_char c :: nat) \<and> (of_char c :: nat) \<le> 90) \<or> (192 \<le> (of_char c :: nat) \<and> (of_char c :: nat) \<le> 222 \<and> (of_char c :: nat) \<noteq> 215)")
    case True
    then have l: "lower_char c = char_of ((of_char c :: nat) + 32)" unfolding lower_char_def Let_def by presburger
    have lt: "(of_char c :: nat) + 32 < 256" using True by auto
    have "lower_char c = CHR ''y'' \<longleftrightarrow> (of_char (lower_char c) :: nat) = of_char (CHR ''y'')"
      by (metis of_char_eq_iff)
    also have "\<dots> \<longleftrightarrow> (of_char c :: nat) + 32 = 121" using lt by (simp add: l)
    also have "\<dots> \<longleftrightarrow> (of_char c :: nat) = of_char (CHR ''Y'')" by auto
    also have "\<dots> \<longleftrightarrow> c = CHR ''Y''" by (metis of_char_eq_iff)
    finally show ?thesis using True by (auto)
  next
    case False
    then have l: "lower_char c = c" unfolding lower_char_def Let_def by presburger
    from False have "c \<noteq> CHR ''Y''" by auto
    with l show ?thesis by simp
  qed
qed

lemma lower_y: "lower s = ''y'' \<longleftrightarrow> s = ''y'' \<or> s = ''Y''"
  by (cases s) (auto simp: lower_def lower_char_y)

section \<open>The claims about merging\<close>

text \<open>
  C4. For every slot index of \<open>incoming\<close>: when \<open>base\<close> does not have it, merge appends
  incoming's chunk after all the entries of \<open>base\<close>, in the order of \<open>incoming\<close>; when
  \<open>base\<close> has it, merge replaces the chunk of \<open>base\<close> by incoming's exactly when the rule
  permits, at the same position, and leaves it as it was otherwise. An index that only
  \<open>base\<close> has keeps its chunk. The first conjunct gives the order of the keys after the
  merge, the second the chunk under every key \<open>k\<close>.
\<close>

theorem merge_applies_incoming:
  assumes "distinct (map fst incoming)"
  shows "map fst (merge base incoming rule) =
           map fst base @ filter (\<lambda>k. k \<notin> set (map fst base)) (map fst incoming) \<and>
         map_of (merge base incoming rule) k =
           (case map_of incoming k of
              None \<Rightarrow> map_of base k
            | Some new_chunk \<Rightarrow>
                (case map_of base k of
                   None \<Rightarrow> Some new_chunk
                 | Some current_chunk \<Rightarrow>
                     if is_allowed_to_merge rule current_chunk new_chunk
                     then Some new_chunk else Some current_chunk))"
  using assms merge_keys [of incoming base rule] merge_lookup [of incoming base rule k]
  by simp

theorem merge_applies_incoming_witness:
  "distinct (map fst [(20::nat, \<lparr>timestamp = 200, location = 9, size_c = 2, chunk_data = []\<rparr>),
                      (36, \<lparr>timestamp = 50, location = 2, size_c = 1, chunk_data = []\<rparr>)]) \<and>
   map fst (merge [(20, \<lparr>timestamp = 100, location = 7, size_c = 1, chunk_data = []\<rparr>)]
              [(20, \<lparr>timestamp = 200, location = 9, size_c = 2, chunk_data = []\<rparr>),
               (36, \<lparr>timestamp = 50, location = 2, size_c = 1, chunk_data = []\<rparr>)]
              MergeRuleNever) = [20, 36] \<and>
   map_of (merge [(20, \<lparr>timestamp = 100, location = 7, size_c = 1, chunk_data = []\<rparr>)]
              [(20, \<lparr>timestamp = 200, location = 9, size_c = 2, chunk_data = []\<rparr>),
               (36, \<lparr>timestamp = 50, location = 2, size_c = 1, chunk_data = []\<rparr>)]
              MergeRuleNever) 20 =
     Some \<lparr>timestamp = 100, location = 7, size_c = 1, chunk_data = []\<rparr>"
  using merge_applies_incoming
    [of "[(20::nat, \<lparr>timestamp = 200, location = 9, size_c = 2, chunk_data = []\<rparr>),
          (36, \<lparr>timestamp = 50, location = 2, size_c = 1, chunk_data = []\<rparr>)]"
        "[(20, \<lparr>timestamp = 100, location = 7, size_c = 1, chunk_data = []\<rparr>)]"
        MergeRuleNever 20]
  by simp

text \<open>
  C7. With the rule \<open>MergeRuleNewestChunks\<close>, a slot index that both containers have holds
  incoming's chunk after the merge when incoming's timestamp is strictly greater, and the
  chunk of \<open>base\<close> otherwise; so equal timestamps keep the chunk of \<open>base\<close>. The slot
  holds incoming's chunk, and one that differs from the chunk of \<open>base\<close>, exactly when
  incoming's timestamp is strictly greater.
\<close>

theorem newest_wins_strict:
  assumes "distinct (map fst incoming)"
    and "map_of base k = Some current_chunk"
    and "map_of incoming k = Some new_chunk"
  shows "map_of (merge base incoming MergeRuleNewestChunks) k =
           Some (if timestamp new_chunk > timestamp current_chunk then new_chunk
                 else current_chunk) \<and>
         (timestamp new_chunk > timestamp current_chunk \<longleftrightarrow>
            map_of (merge base incoming MergeRuleNewestChunks) k = Some new_chunk \<and>
            new_chunk \<noteq> current_chunk)"
  using assms merge_lookup [of incoming base MergeRuleNewestChunks k] by auto

theorem newest_wins_strict_witness:
  "distinct (map fst [(20::nat, \<lparr>timestamp = 100, location = 9, size_c = 2, chunk_data = [1]\<rparr>)]) \<and>
   map_of [(20::nat, \<lparr>timestamp = 100, location = 7, size_c = 1, chunk_data = [0]\<rparr>)] 20 =
     Some \<lparr>timestamp = 100, location = 7, size_c = 1, chunk_data = [0]\<rparr> \<and>
   map_of [(20::nat, \<lparr>timestamp = 100, location = 9, size_c = 2, chunk_data = [1]\<rparr>)] 20 =
     Some \<lparr>timestamp = 100, location = 9, size_c = 2, chunk_data = [1]\<rparr> \<and>
   map_of (merge [(20, \<lparr>timestamp = 100, location = 7, size_c = 1, chunk_data = [0]\<rparr>)]
              [(20, \<lparr>timestamp = 100, location = 9, size_c = 2, chunk_data = [1]\<rparr>)]
              MergeRuleNewestChunks) 20 =
     Some \<lparr>timestamp = 100, location = 7, size_c = 1, chunk_data = [0]\<rparr>"
  using newest_wins_strict
    [of "[(20::nat, \<lparr>timestamp = 100, location = 9, size_c = 2, chunk_data = [1]\<rparr>)]"
        "[(20, \<lparr>timestamp = 100, location = 7, size_c = 1, chunk_data = [0]\<rparr>)]" 20
        "\<lparr>timestamp = 100, location = 7, size_c = 1, chunk_data = [0]\<rparr>"
        "\<lparr>timestamp = 100, location = 9, size_c = 2, chunk_data = [1]\<rparr>"]
  by simp

section \<open>The claims about the file pairing\<close>

text \<open>
  C1. A file name that both worlds have should be a merge candidate and never be copied
  whole. \<open>merge_dimension\<close> tests \<open>name in f1\<close> on the list of tuples that
  \<open>list_mca_files\<close> returns, which no string is equal to (\<open>py_in_entry\<close>), so every file
  of the source world is a copy candidate (\<open>pair_loop_all_copy\<close>). Here the name
  \<open>r.0.0.mca\<close> is in both worlds, and after the answer \<open>y\<close> the target file holds the
  bytes of the source file: \<open>copy\<close> got the pair, \<open>merge\<close> got nothing.
\<close>

theorem shared_name_is_copied_whole:
  "(case merge_dimension ''w1/region''
           [(''r.0.0.mca'', ''w1/region/r.0.0.mca'', ''w1/w1/region/r.0.0.mca'')]
           [(''r.0.0.mca'', ''w2/region/r.0.0.mca'', ''w1/w2/region/r.0.0.mca'')]
           MergeRuleNewestChunks ''y''
           [''w1/region/r.0.0.mca'' \<mapsto> [1], ''w2/region/r.0.0.mca'' \<mapsto> [2]] of
      Inl e \<Rightarrow> None
    | Inr (events, files) \<Rightarrow> Some (events, files ''w1/region/r.0.0.mca'')) =
   Some ([Prompt,
          Call_copy [\<lparr>from_file = ''w2/region/r.0.0.mca'', to_file = ''w1/region/r.0.0.mca''\<rparr>],
          Call_merge [] MergeRuleNewestChunks],
         Some [2])"
  by (simp add: merge_dimension_def bind_err_def py_in_def path_join_def lower_def lower_char_def)

theorem shared_name_is_copied_whole_witness:
  "(case merge_dimension ''w1/region''
           [(''r.0.0.mca'', ''w1/region/r.0.0.mca'', ''w1/w1/region/r.0.0.mca'')]
           [(''r.0.0.mca'', ''w2/region/r.0.0.mca'', ''w1/w2/region/r.0.0.mca'')]
           MergeRuleNewestChunks ''y''
           [''w1/region/r.0.0.mca'' \<mapsto> [1], ''w2/region/r.0.0.mca'' \<mapsto> [2]] of
      Inl e \<Rightarrow> None
    | Inr (events, files) \<Rightarrow> Some (files ''w1/region/r.0.0.mca'')) = Some (Some [2])"
  using shared_name_is_copied_whole by (auto split: sum.splits prod.splits)

text \<open>
  C10. When the list of copy candidates or the list of merge candidates is not empty,
  \<open>merge_dimension\<close> prompts, and it calls \<open>copy\<close> and \<open>merge\<close> exactly when the answer in
  lower case is \<open>y\<close>, that is, when the answer is \<open>y\<close> or \<open>Y\<close>; after any other answer
  it leaves the files as they were. The empty answer is one of these.
\<close>

theorem confirmation_only_on_y:
  assumes "pair_loop world1_dim_path f1 f2 [] [] = Inr (files_to_copy, files_to_merge)"
    and "files_to_copy \<noteq> [] \<or> files_to_merge \<noteq> []"
  shows "merge_dimension world1_dim_path f1 f2 rule user_input files =
           (if lower user_input = ''y''
            then Inr ([Prompt, Call_copy files_to_copy, Call_merge files_to_merge rule],
                      RegionFinder_merge files_to_merge rule
                        (RegionFinder_copy files_to_copy files))
            else Inr ([Prompt], files)) \<and>
         (lower user_input = ''y'' \<longleftrightarrow> user_input = ''y'' \<or> user_input = ''Y'') \<and>
         lower [] \<noteq> ''y''"
proof -
  have "lower [] \<noteq> ''y''" by (simp add: lower_def)
  with assms show ?thesis by (simp add: merge_dimension_def bind_err_def lower_y)
qed

theorem confirmation_only_on_y_witness:
  "pair_loop ''w1/region'' [] [(''r.0.0.mca'', ''w2/region/r.0.0.mca'', ''w1/w2/region/r.0.0.mca'')] [] [] =
     Inr ([\<lparr>from_file = ''w2/region/r.0.0.mca'', to_file = ''w1/region/r.0.0.mca''\<rparr>], []) \<and>
   [\<lparr>from_file = ''w2/region/r.0.0.mca'', to_file = ''w1/region/r.0.0.mca''\<rparr>] \<noteq> [] \<and>
   merge_dimension ''w1/region'' []
     [(''r.0.0.mca'', ''w2/region/r.0.0.mca'', ''w1/w2/region/r.0.0.mca'')]
     MergeRuleNewestChunks [] [''w2/region/r.0.0.mca'' \<mapsto> [2]] =
   Inr ([Prompt], [''w2/region/r.0.0.mca'' \<mapsto> [2]])"
proof -
  have p: "pair_loop ''w1/region'' [] [(''r.0.0.mca'', ''w2/region/r.0.0.mca'', ''w1/w2/region/r.0.0.mca'')] [] [] =
     Inr ([\<lparr>from_file = ''w2/region/r.0.0.mca'', to_file = ''w1/region/r.0.0.mca''\<rparr>], [])"
    by (simp add: py_in_def path_join_def)
  have n: "[\<lparr>from_file = ''w2/region/r.0.0.mca'', to_file = ''w1/region/r.0.0.mca''\<rparr>] \<noteq> [] \<or>
    ([] :: FilePair list) \<noteq> []" by simp
  show ?thesis
    using p n confirmation_only_on_y [OF p n, of MergeRuleNewestChunks "[]" "[''w2/region/r.0.0.mca'' \<mapsto> [2]]"]
    by (simp add: lower_def)
qed

section \<open>Facts about reading a region file\<close>

lemma uint_byte_and: "uint (b :: byte) AND 255 = uint b"
proof -
  have "uint b < 2 ^ 8" using uint_lt2p [of b] by simp
  then have "take_bit 8 (uint b) = uint b" by (simp add: take_bit_int_eq_self)
  then show ?thesis by (simp add: take_bit_eq_mask mask_eq_exp_minus_1)
qed

lemma uint_byte_of_int: "uint (word_of_int (x AND 255) :: byte) = take_bit 8 x"
proof -
  have "x AND 255 = take_bit 8 x" by (simp add: take_bit_eq_mask mask_eq_exp_minus_1)
  then show ?thesis by (simp add: uint_word_of_int_eq)
qed

lemma be4: "push_bit 24 (take_bit 8 (drop_bit 24 t)) OR push_bit 16 (take_bit 8 (drop_bit 16 t)) OR push_bit 8 (take_bit 8 (drop_bit 8 t)) OR take_bit 8 t = take_bit 32 (t::int)"
proof (rule bit_eqI)
  fix n
  show "bit (push_bit 24 (take_bit 8 (drop_bit 24 t)) OR push_bit 16 (take_bit 8 (drop_bit 16 t)) OR push_bit 8 (take_bit 8 (drop_bit 8 t)) OR take_bit 8 t) n = bit (take_bit 32 t) n"
    by (cases "n < 8"; cases "n < 16"; cases "n < 24"; cases "n < 32") (auto simp: bit_simps)
qed

lemma be3: "push_bit 16 (take_bit 8 (drop_bit 16 t)) OR push_bit 8 (take_bit 8 (drop_bit 8 t)) OR take_bit 8 t = take_bit 24 (t::int)"
proof (rule bit_eqI)
  fix n
  show "bit (push_bit 16 (take_bit 8 (drop_bit 16 t)) OR push_bit 8 (take_bit 8 (drop_bit 8 t)) OR take_bit 8 t) n = bit (take_bit 24 t) n"
    by (cases "n < 8"; cases "n < 16"; cases "n < 24") (auto simp: bit_simps)
qed

lemma bytes_to_int_4:
  assumes "i + 3 < length arr"
  shows "bytes_to_int arr i (i + 3) = Inr (push_bit 24 (uint (arr ! i)) OR push_bit 16 (uint (arr ! (i + 1))) OR push_bit 8 (uint (arr ! (i + 2))) OR uint (arr ! (i + 3)))"
  using assms unfolding bytes_to_int_def
  apply (subst bytes_to_int_loop.simps)
  apply (subst bytes_to_int_loop.simps)
  apply (subst bytes_to_int_loop.simps)
  apply (subst bytes_to_int_loop.simps)
  apply (subst bytes_to_int_loop.simps)
  apply (simp add: uint_byte_and or.assoc numeral_3_eq_3)
  done

lemma bytes_to_int_3:
  assumes "i + 2 < length arr"
  shows "bytes_to_int arr i (i + 2) = Inr (push_bit 16 (uint (arr ! i)) OR push_bit 8 (uint (arr ! (i + 1))) OR uint (arr ! (i + 2)))"
  using assms unfolding bytes_to_int_def
  apply (subst bytes_to_int_loop.simps)
  apply (subst bytes_to_int_loop.simps)
  apply (subst bytes_to_int_loop.simps)
  apply (subst bytes_to_int_loop.simps)
  apply (simp add: uint_byte_and or.assoc numeral_2_eq_2)
  done

lemma bytes_to_int_loop_error:
  "start \<le> end_pos \<Longrightarrow> length arr \<le> end_pos \<Longrightarrow> bytes_to_int_loop arr start end_pos res = Inl IndexError"
proof (induction arr start end_pos res rule: bytes_to_int_loop.induct)
  case (1 arr start end_pos res)
  show ?case
  proof (cases "start < length arr")
    case True
    with "1.prems" have "Suc start \<le> end_pos" by simp
    with "1.IH" "1.prems" True show ?thesis
      by (subst bytes_to_int_loop.simps) simp
  next
    case False
    with "1.prems" show ?thesis by (subst bytes_to_int_loop.simps) simp
  qed
qed

lemma bytes_to_int_error: "length arr \<le> i + n \<Longrightarrow> bytes_to_int arr i (i + n) = Inl IndexError"
  by (simp add: bytes_to_int_def bytes_to_int_loop_error)

lemma read_loop_error:
  "\<exists>i\<in>set idxs. length timestamps \<le> i + 3 \<Longrightarrow>
   read_loop locations timestamps chunk_data_array idxs chunk_map = Inl IndexError"
proof (induction idxs arbitrary: chunk_map)
  case Nil
  then show ?case by simp
next
  case (Cons i idxs)
  show ?case
  proof (cases "length timestamps \<le> i + 3")
    case True
    then have "bytes_to_int timestamps i (i + 3) = Inl IndexError"
      by (rule bytes_to_int_error)
    then show ?thesis by (simp add: bind_err_def)
  next
    case False
    with Cons.prems have rest: "\<exists>i\<in>set idxs. length timestamps \<le> i + 3" by auto
    from False have "i + 3 < length timestamps" by simp
    then have t: "bytes_to_int timestamps i (i + 3) = Inr (entry_timestamp timestamps i)"
      unfolding entry_timestamp_def by (rule bytes_to_int_4)
    show ?thesis
    proof (cases "i + 2 < length locations")
      case True
      then have "bytes_to_int locations i (i + 2) = Inr (entry_location locations i)"
        unfolding entry_location_def by (rule bytes_to_int_3)
      then show ?thesis
        using t Cons.IH [OF rest]
        by (simp add: bind_err_def Let_def)
    next
      case False
      then have "length locations \<le> i + 2" by simp
      then have "bytes_to_int locations i (i + 2) = Inl IndexError"
        by (rule bytes_to_int_error)
      then show ?thesis using t by (simp add: bind_err_def)
    qed
  qed
qed

lemma read_loop_scan:
  "\<forall>i\<in>set idxs. i + 3 < length locations \<and> i + 3 < length timestamps \<Longrightarrow>
   read_loop locations timestamps chunk_data_array idxs chunk_map =
   Inr (foldl (scan_step locations timestamps chunk_data_array) chunk_map idxs)"
proof (induction idxs arbitrary: chunk_map)
  case Nil
  then show ?case by simp
next
  case (Cons i idxs)
  then have i: "i + 3 < length locations" "i + 3 < length timestamps"
    and rest: "\<forall>i\<in>set idxs. i + 3 < length locations \<and> i + 3 < length timestamps"
    by simp_all
  from i have t: "bytes_to_int timestamps i (i + 3) = Inr (entry_timestamp timestamps i)"
    unfolding entry_timestamp_def by (intro bytes_to_int_4)
  from i have "i + 2 < length locations" by simp
  then have l: "bytes_to_int locations i (i + 2) = Inr (entry_location locations i)"
    unfolding entry_location_def by (rule bytes_to_int_3)
  show ?case
    using i t l Cons.IH [OF rest]
    by (simp add: bind_err_def Let_def scan_step_def entry_chunk_def entry_size_def
        uint_byte_and)
qed

lemma range_step4_bound: "i \<in> set (range_step4 n) \<Longrightarrow> i mod 4 = 0 \<and> i < n"
  by (auto simp: range_step4_def)

lemma range_step4_mem: "i mod 4 = 0 \<Longrightarrow> i < n \<Longrightarrow> i \<in> set (range_step4 n)"
proof -
  assume a: "i mod 4 = 0" "i < n"
  then have "i = 4 * (i div 4)" by presburger
  moreover from a have "i div 4 < (n + 3) div 4" by presburger
  ultimately show ?thesis unfolding range_step4_def by (metis (no_types, lifting) atLeast0LessThan image_eqI lessThan_iff list.set_map set_upt)
qed

lemma read_file_long:
  assumes "8192 \<le> length bytes_data"
  shows "read_file bytes_data =
         Inr (foldl (scan_step (take 4096 bytes_data) (take 4096 (drop 4096 bytes_data))
                       (drop 8192 bytes_data)) [] (range_step4 4096))"
proof -
  have "\<forall>i\<in>set (range_step4 4096). i + 3 < length (take 4096 bytes_data) \<and>
          i + 3 < length (take 4096 (drop 4096 bytes_data))"
  proof
    fix i assume "i \<in> set (range_step4 4096)"
    then have "i mod 4 = 0 \<and> i < 4096" by (rule range_step4_bound)
    then have "i + 3 < 4096" by presburger
    with assms show "i + 3 < length (take 4096 bytes_data) \<and>
          i + 3 < length (take 4096 (drop 4096 bytes_data))" by simp
  qed
  from read_loop_scan [OF this] assms show ?thesis
    by (simp add: read_file_def Let_def min_def)
qed

lemma read_file_short:
  assumes "0 < length bytes_data" "length bytes_data < 8192"
  shows "read_file bytes_data = Inl IndexError"
proof -
  let ?n = "length (take 4096 bytes_data)"
  let ?i = "4 * ((?n + 3) div 4 - 1)"
  from assms have n: "0 < ?n" "?n \<le> 4096" by simp_all
  then have "?i mod 4 = 0" "?i < ?n" by presburger+
  then have mem: "?i \<in> set (range_step4 ?n)" by (rule range_step4_mem)
  have "length (take 4096 (drop 4096 bytes_data)) \<le> ?i + 3"
  proof (cases "length bytes_data \<le> 4096")
    case True
    then show ?thesis by simp
  next
    case False
    with assms show ?thesis by (simp add: min_def)
  qed
  with mem have "\<exists>i\<in>set (range_step4 ?n). length (take 4096 (drop 4096 bytes_data)) \<le> i + 3"
    by blast
  from read_loop_error [OF this] show ?thesis by (simp add: read_file_def Let_def)
qed

section \<open>The claims about decoding\<close>

text \<open>
  C2, as the code has it. \<open>read_file\<close> checks no length: it fails on a buffer shorter
  than 8192 bytes only because a header entry is read out of range, which needs at least
  one pass of the loop. So it raises \<open>IndexError\<close> on every buffer of 1 to 8191 bytes,
  returns the empty chunk map on the empty buffer, and returns a chunk map on every
  buffer of 8192 bytes or more, whatever the entries are.
\<close>

theorem read_file_length:
  "(0 < length bytes_data \<and> length bytes_data < 8192 \<longrightarrow> read_file bytes_data = Inl IndexError) \<and>
   (bytes_data = [] \<longrightarrow> read_file bytes_data = Inr []) \<and>
   (8192 \<le> length bytes_data \<longrightarrow> (\<exists>chunk_map. read_file bytes_data = Inr chunk_map))"
  using read_file_short [of bytes_data] read_file_long [of bytes_data]
  by (auto simp: read_file_def range_step4_def)

theorem read_file_length_witness:
  "read_file [0] = Inl IndexError \<and> read_file [] = Inr [] \<and>
   (\<exists>chunk_map. read_file (replicate 8192 0) = Inr chunk_map)"
  using read_file_length [of "[0]"] read_file_length [of "[]"]
    read_file_length [of "replicate 8192 0"]
  by simp

text \<open>
  The empty buffer is shorter than 8192 bytes and \<open>read_file\<close> returns a chunk map for it.
\<close>

theorem read_file_empty_counterexample:
  "length ([] :: byte list) < 8192 \<and> read_file [] = Inr []"
  by (simp add: read_file_def range_step4_def)

section \<open>Facts about the decoded chunks\<close>

lemma foldl_scan_lookup:
  "map_of (foldl (scan_step locations timestamps chunk_data_array) chunk_map idxs) k =
     (if k \<in> set idxs \<and> entry_size locations k \<noteq> 0
      then Some (entry_chunk locations timestamps chunk_data_array k)
      else map_of chunk_map k)"
proof (induction idxs arbitrary: chunk_map)
  case Nil
  then show ?case by simp
next
  case (Cons i idxs)
  show ?case
    by (simp add: Cons.IH) (simp add: scan_step_def map_of_dict_set)
qed

lemma foldl_scan_distinct:
  "distinct (map fst chunk_map) \<Longrightarrow>
   distinct (map fst (foldl (scan_step locations timestamps chunk_data_array) chunk_map idxs))"
  by (induction idxs arbitrary: chunk_map) (simp_all add: scan_step_def distinct_dict_set)

lemma foldl_scan_member:
  assumes "(k, c) \<in> set (foldl (scan_step locations timestamps chunk_data_array) [] idxs)"
  shows "k \<in> set idxs \<and> entry_size locations k \<noteq> 0 \<and>
         c = entry_chunk locations timestamps chunk_data_array k"
proof -
  have "distinct (map fst (foldl (scan_step locations timestamps chunk_data_array) [] idxs))"
    by (rule foldl_scan_distinct) simp
  with assms have
    "map_of (foldl (scan_step locations timestamps chunk_data_array) [] idxs) k = Some c"
    by simp
  then show ?thesis by (simp add: foldl_scan_lookup split: if_splits)
qed

lemma py_slice_nonneg:
  "0 \<le> a \<Longrightarrow> a \<le> b \<Longrightarrow> py_slice xs a b = take (nat (b - a)) (drop (nat a) xs)"
  by (auto simp: py_slice_def slice_index_def Let_def min_def nat_diff_distrib)

lemma py_slice_length_le: "a \<le> b \<Longrightarrow> int (length (py_slice xs a b)) \<le> b - a"
  by (auto simp: py_slice_def slice_index_def Let_def min_def)

lemma entry_size_bounds: "0 \<le> entry_size locations i \<and> entry_size locations i \<le> 255"
proof -
  have "uint (locations ! (i + 3)) < 2 ^ 8" using uint_lt2p [of "locations ! (i + 3)"] by simp
  then show ?thesis by (simp add: entry_size_def)
qed

lemma set_dict_set: "set (dict_set d k v) \<subseteq> insert (k, v) (set d)"
  by (induction d) (auto split: if_splits)

lemma set_merge: "set (merge self_map other rule) \<subseteq> set self_map \<union> set other"
proof (induction other arbitrary: self_map)
  case Nil
  then show ?case by simp
next
  case (Cons e other)
  obtain pos new_chunk where e: "e = (pos, new_chunk)" by (cases e)
  have a: "set (merge (dict_set self_map pos new_chunk) other rule) \<subseteq>
        set self_map \<union> set (e # other)"
    using Cons.IH [of "dict_set self_map pos new_chunk"] set_dict_set [of self_map pos new_chunk] e
    by auto
  have b: "set (merge self_map other rule) \<subseteq> set self_map \<union> set (e # other)"
    using Cons.IH [of self_map] by auto
  show ?case using a b e by (simp split: option.splits)
qed

lemma update_from_fields:
  "(k, c) \<in> set (update_chunk_locations_from a chunk_map) \<Longrightarrow>
   \<exists>c0. (k, c0) \<in> set chunk_map \<and> timestamp c = timestamp c0 \<and> size_c c = size_c c0 \<and>
        chunk_data c = chunk_data c0"
proof (induction chunk_map arbitrary: a)
  case Nil
  then show ?case by simp
next
  case (Cons e chunk_map)
  obtain pos chunk where e: "e = (pos, chunk)" by (cases e)
  from Cons.prems e
  consider "(k, c) = (pos, chunk\<lparr>location := a\<rparr>)"
    | "(k, c) \<in> set (update_chunk_locations_from (a + size_c chunk) chunk_map)"
    by auto
  then show ?case
  proof cases
    case 1
    then show ?thesis using e by auto
  next
    case 2
    from Cons.IH [OF 2] show ?thesis by auto
  qed
qed

lemma read_file_member:
  assumes "read_file bytes_data = Inr chunk_map" and "(k, c) \<in> set chunk_map"
  shows "8192 \<le> length bytes_data \<and> k mod 4 = 0 \<and> k < 4096 \<and>
         entry_size (take 4096 bytes_data) k \<noteq> 0 \<and>
         c = entry_chunk (take 4096 bytes_data) (take 4096 (drop 4096 bytes_data))
               (drop 8192 bytes_data) k"
proof -
  have long: "8192 \<le> length bytes_data"
  proof (rule ccontr)
    assume "\<not> 8192 \<le> length bytes_data"
    then consider "bytes_data = []" | "0 < length bytes_data" "length bytes_data < 8192"
      by (cases bytes_data) auto
    then show False
    proof cases
      case 1
      with assms show False by (simp add: read_file_def range_step4_def)
    next
      case 2
      with assms read_file_short [of bytes_data] show False by simp
    qed
  qed
  from assms read_file_long [OF long]
  have "(k, c) \<in> set (foldl (scan_step (take 4096 bytes_data) (take 4096 (drop 4096 bytes_data))
                       (drop 8192 bytes_data)) [] (range_step4 4096))"
    by simp
  from foldl_scan_member [OF this] range_step4_bound [of k 4096] long show ?thesis by simp
qed

lemma entry_chunk_length:
  "int (length (chunk_data (entry_chunk locations timestamps chunk_data_array k)))
     \<le> entry_size locations k * 4096"
proof -
  have "(entry_location locations k - 2) * 4096 \<le>
        (entry_location locations k + entry_size locations k - 2) * 4096"
    using entry_size_bounds [of locations k] by simp
  from py_slice_length_le [OF this, of chunk_data_array] show ?thesis
    by (simp add: entry_chunk_def algebra_simps)
qed

lemma entry_chunk_exact:
  assumes "2 \<le> entry_location locations k"
    and "(entry_location locations k + entry_size locations k - 2) * 4096
           \<le> int (length chunk_data_array)"
  shows "payload_fits (entry_chunk locations timestamps chunk_data_array k)"
proof -
  let ?a = "(entry_location locations k - 2) * 4096"
  let ?b = "(entry_location locations k + entry_size locations k - 2) * 4096"
  have a: "0 \<le> ?a" using assms(1) by simp
  have ab: "?a \<le> ?b" using entry_size_bounds [of locations k] by simp
  have "py_slice chunk_data_array ?a ?b = take (nat (?b - ?a)) (drop (nat ?a) chunk_data_array)"
    by (rule py_slice_nonneg [OF a ab])
  then have "length (py_slice chunk_data_array ?a ?b) =
             min (length chunk_data_array - nat ?a) (nat (?b - ?a))"
    by simp
  also have "\<dots> = nat (?b - ?a)" using assms(2) a ab by linarith
  finally have "length (py_slice chunk_data_array ?a ?b) = nat (?b - ?a)" .
  moreover have "?b - ?a = entry_size locations k * 4096" by (simp add: algebra_simps)
  ultimately show ?thesis
    using entry_size_bounds [of locations k]
    by (simp add: payload_fits_def entry_chunk_def)
qed

lemma read_file_lookup:
  assumes "8192 \<le> length bytes_data" "k mod 4 = 0" "k < 4096"
    "entry_size (take 4096 bytes_data) k \<noteq> 0"
  shows "\<exists>chunk_map. read_file bytes_data = Inr chunk_map \<and>
           map_of chunk_map k = Some (entry_chunk (take 4096 bytes_data)
             (take 4096 (drop 4096 bytes_data)) (drop 8192 bytes_data) k)"
  using assms read_file_long [of bytes_data] range_step4_mem [of k 4096]
  by (simp add: foldl_scan_lookup)

section \<open>The claim about the payload length\<close>

text \<open>
  C9, as the code has it. \<open>read_file\<close> takes the payload with a slice, and a slice of
  Python is clamped to the sequence, so a file that ends before the sectors of an entry
  end gives a chunk whose payload is shorter than \<open>size * 4096\<close>. Every chunk that
  \<open>read_file\<close> builds has a size from 1 to 255 and a payload of at most \<open>size * 4096\<close>
  bytes, and of exactly that length when its location is at least 2 and the buffer holds
  all of its sectors. \<open>merge\<close> and \<open>update_chunk_locations\<close> change no size and no
  payload: when every chunk has a payload of exactly \<open>size * 4096\<close> bytes before, every
  chunk has one after.
\<close>

theorem payload_length_lifecycle:
  "(read_file bytes_data = Inr chunk_map \<and> (k, c) \<in> set chunk_map \<longrightarrow>
      1 \<le> size_c c \<and> size_c c \<le> 255 \<and>
      int (length (chunk_data c)) \<le> size_c c * 4096 \<and>
      (2 \<le> location c \<and> (location c + size_c c) * 4096 \<le> int (length bytes_data)
         \<longrightarrow> payload_fits c)) \<and>
   ((\<forall>(k, c)\<in>set base. payload_fits c) \<and> (\<forall>(k, c)\<in>set incoming. payload_fits c) \<longrightarrow>
      (\<forall>(k, c)\<in>set (merge base incoming rule). payload_fits c)) \<and>
   ((\<forall>(k, c)\<in>set base. payload_fits c) \<longrightarrow>
      (\<forall>(k, c)\<in>set (update_chunk_locations base). payload_fits c))"
proof (intro conjI impI)
  assume r: "read_file bytes_data = Inr chunk_map \<and> (k, c) \<in> set chunk_map"
  let ?L = "take 4096 bytes_data"
  let ?T = "take 4096 (drop 4096 bytes_data)"
  let ?D = "drop 8192 bytes_data"
  from r read_file_member [of bytes_data chunk_map k c]
  have long: "8192 \<le> length bytes_data" and nz: "entry_size ?L k \<noteq> 0"
    and c: "c = entry_chunk ?L ?T ?D k" by simp_all
  have sz: "size_c c = entry_size ?L k" and loc: "location c = entry_location ?L k"
    by (simp_all add: c entry_chunk_def)
  from nz entry_size_bounds [of ?L k] sz show "1 \<le> size_c c" "size_c c \<le> 255" by simp_all
  from entry_chunk_length [of ?L ?T ?D k] sz c
  show "int (length (chunk_data c)) \<le> size_c c * 4096" by simp
  assume inside: "2 \<le> location c \<and> (location c + size_c c) * 4096 \<le> int (length bytes_data)"
  then have "(entry_location ?L k + entry_size ?L k - 2) * 4096 \<le> int (length ?D)"
    using long by (simp add: sz loc algebra_simps)
  with inside loc c show "payload_fits c" by (simp add: entry_chunk_exact)
next
  assume "(\<forall>(k, c)\<in>set base. payload_fits c) \<and> (\<forall>(k, c)\<in>set incoming. payload_fits c)"
  with set_merge [of base incoming rule]
  show "\<forall>(k, c)\<in>set (merge base incoming rule). payload_fits c" by blast
next
  assume b: "\<forall>(k, c)\<in>set base. payload_fits c"
  show "\<forall>(k, c)\<in>set (update_chunk_locations base). payload_fits c"
  proof (clarify)
    fix k c assume "(k, c) \<in> set (update_chunk_locations base)"
    then obtain c0 where "(k, c0) \<in> set base" "size_c c = size_c c0" "chunk_data c = chunk_data c0"
      unfolding update_chunk_locations_def using update_from_fields by blast
    with b show "payload_fits c" by (auto simp: payload_fits_def)
  qed
qed

theorem payload_length_lifecycle_witness:
  "(\<exists>chunk_map c.
      read_file ([0, 0, 2, 1] @ replicate 8188 0 @ replicate 4096 7) = Inr chunk_map \<and>
      (0, c) \<in> set chunk_map \<and> 2 \<le> location c \<and>
      (location c + size_c c) * 4096
        \<le> int (length ([0, 0, 2, 1] @ replicate 8188 0 @ replicate 4096 (7 :: byte))) \<and>
      payload_fits c) \<and>
   payload_fits \<lparr>timestamp = 1, location = 5, size_c = 1, chunk_data = replicate 4096 0\<rparr> \<and>
   list_all (\<lambda>(k, c). payload_fits c)
     (merge [(0, \<lparr>timestamp = 1, location = 5, size_c = 1, chunk_data = replicate 4096 0\<rparr>)]
            [(0, \<lparr>timestamp = 1, location = 5, size_c = 1, chunk_data = replicate 4096 0\<rparr>)]
            MergeRuleAlways) \<and>
   list_all (\<lambda>(k, c). payload_fits c)
     (update_chunk_locations
        [(0, \<lparr>timestamp = 1, location = 5, size_c = 1, chunk_data = replicate 4096 0\<rparr>)])"
proof -
  let ?B = "[0, 0, 2, 1] @ replicate 8188 0 @ replicate 4096 (7 :: byte)"
  let ?c1 = "\<lparr>timestamp = 1, location = 5, size_c = 1, chunk_data = replicate 4096 (0 :: byte)\<rparr>"
  have nz: "entry_size (take 4096 ?B) 0 \<noteq> 0" by (simp add: entry_size_def)
  from read_file_lookup [of ?B 0, OF _ _ _ nz]
  obtain chunk_map where r: "read_file ?B = Inr chunk_map"
    and m: "map_of chunk_map 0 = Some (entry_chunk (take 4096 ?B) (take 4096 (drop 4096 ?B))
           (drop 8192 ?B) 0)" (is "_ = Some ?c")
    by auto
  from m have mem: "(0, ?c) \<in> set chunk_map" by (rule map_of_SomeD)
  have loc: "location ?c = 2" and sz: "size_c ?c = 1"
    by (simp_all add: entry_chunk_def entry_location_def entry_size_def)
  have inside: "2 \<le> location ?c \<and> (location ?c + size_c ?c) * 4096 \<le> int (length ?B)"
    using loc sz by simp
  have f1: "payload_fits ?c1" by (simp add: payload_fits_def)
  then have b: "\<forall>(k, c)\<in>set [(0::nat, ?c1)]. payload_fits c" by simp
  from payload_length_lifecycle [of ?B chunk_map 0 ?c "[(0, ?c1)]" "[(0, ?c1)]" MergeRuleAlways]
    r mem inside b
  have "payload_fits ?c"
    and "\<forall>(k, c)\<in>set (merge [(0, ?c1)] [(0, ?c1)] MergeRuleAlways). payload_fits c"
    and "\<forall>(k, c)\<in>set (update_chunk_locations [(0, ?c1)]). payload_fits c"
    by blast+
  with r mem inside f1 show ?thesis
    unfolding list_all_iff by blast
qed

text \<open>
  A buffer of 8192 bytes whose first entry announces one sector at location 2:
  \<open>read_file\<close> builds a chunk of size 1 with an empty payload.
\<close>

theorem truncated_payload_counterexample:
  "(case read_file ([0, 0, 2, 1] @ replicate 8188 0) of
      Inl e \<Rightarrow> None
    | Inr chunk_map \<Rightarrow>
        map_option (\<lambda>c. (size_c c, length (chunk_data c))) (map_of chunk_map 0)) =
   Some (1, 0)"
proof -
  let ?B = "[0, 0, 2, 1] @ replicate 8188 (0 :: byte)"
  have "entry_size (take 4096 ?B) 0 \<noteq> 0" by (simp add: entry_size_def)
  from read_file_lookup [of ?B 0, OF _ _ _ this]
  obtain chunk_map where "read_file ?B = Inr chunk_map"
    and "map_of chunk_map 0 = Some (entry_chunk (take 4096 ?B) (take 4096 (drop 4096 ?B))
           (drop 8192 ?B) 0)"
    by auto
  then show ?thesis
    by (simp add: entry_chunk_def entry_size_def py_slice_def)
qed

section \<open>Facts about the compaction\<close>

lemma length_update_from: "length (update_chunk_locations_from a chunk_map) = length chunk_map"
  by (induction chunk_map arbitrary: a) auto

lemma update_from_nth:
  "i < length chunk_map \<Longrightarrow>
   update_chunk_locations_from a chunk_map ! i =
     (fst (chunk_map ! i),
      (snd (chunk_map ! i))\<lparr>location := a + sum_list (map (size_c \<circ> snd) (take i chunk_map))\<rparr>)"
proof (induction chunk_map arbitrary: a i)
  case Nil
  then show ?case by simp
next
  case (Cons e chunk_map)
  obtain pos chunk where e: "e = (pos, chunk)" by (cases e)
  show ?case
  proof (cases i)
    case 0
    then show ?thesis using e by simp
  next
    case (Suc j)
    with Cons.prems have "j < length chunk_map" by simp
    from Cons.IH [OF this, of "a + size_c chunk"] Suc e show ?thesis
      by (simp add: add.assoc)
  qed
qed

lemma update_from_ignores_location:
  "update_chunk_locations_from a (map (\<lambda>(k, c). (k, c\<lparr>location := f k c\<rparr>)) chunk_map) =
   update_chunk_locations_from a chunk_map"
  by (induction chunk_map arbitrary: a) auto

lemma sum_list_sizes_mono:
  assumes "\<forall>(k, c)\<in>set chunk_map. 1 \<le> size_c c" and "j < i" and "i \<le> length chunk_map"
  shows "sum_list (map (size_c \<circ> snd) (take j chunk_map)) + size_c (snd (chunk_map ! j))
         \<le> sum_list (map (size_c \<circ> snd) (take i chunk_map))"
proof -
  from assms(2,3) have j: "j < length chunk_map" by simp
  have split: "take i chunk_map = take (Suc j) chunk_map @ take (i - Suc j) (drop (Suc j) chunk_map)"
    using assms(2) by (metis Suc_leI add_diff_inverse_nat le_add_diff_inverse not_less take_add)
  have nonneg: "0 \<le> sum_list (map (size_c \<circ> snd) (take (i - Suc j) (drop (Suc j) chunk_map)))"
  proof (rule sum_list_nonneg)
    fix x assume "x \<in> set (map (size_c \<circ> snd) (take (i - Suc j) (drop (Suc j) chunk_map)))"
    then obtain e where "e \<in> set chunk_map" "x = size_c (snd e)"
      by (auto dest!: in_set_takeD in_set_dropD)
    with assms(1) show "0 \<le> x" by (cases e) force
  qed
  have "sum_list (map (size_c \<circ> snd) (take (Suc j) chunk_map)) =
        sum_list (map (size_c \<circ> snd) (take j chunk_map)) + size_c (snd (chunk_map ! j))"
    using j by (simp add: take_Suc_conv_app_nth)
  with nonneg show ?thesis by (subst split) simp
qed

lemma sum_list_sizes_nonneg:
  assumes "\<forall>(k, c)\<in>set chunk_map. 1 \<le> size_c c"
  shows "0 \<le> sum_list (map (size_c \<circ> snd) (take i chunk_map))"
proof (rule sum_list_nonneg)
  fix x assume "x \<in> set (map (size_c \<circ> snd) (take i chunk_map))"
  then obtain e where "e \<in> set chunk_map" "x = size_c (snd e)"
    by (auto dest!: in_set_takeD)
  with assms show "0 \<le> x" by (cases e) force
qed

lemma write_returns_compacted:
  "write chunk_map = Inr (chunk_map', out) \<Longrightarrow> chunk_map' = update_chunk_locations chunk_map"
  by (auto simp: write_def Let_def bind_err_def split: sum.splits prod.splits)

section \<open>The claim about the compaction\<close>

text \<open>
  C5. \<open>write\<close> starts with \<open>update_chunk_locations\<close>, which walks the chunk map in its
  order from the address 2, gives every chunk the current address as its location and
  adds the size of the chunk to the address: the chunk at position \<open>i\<close> gets 2 plus the
  sizes of the chunks before it, whatever the locations were before, and nothing else of
  it changes. So with sizes of at least 1 every location is at least 2, the sectors of an
  earlier chunk end at or before the location of a later one (no location is used
  twice), and each chunk starts where the one before it ends (no gap).
\<close>

theorem compaction_is_packed:
  assumes "i < length chunk_map"
  shows "length (update_chunk_locations chunk_map) = length chunk_map \<and>
         update_chunk_locations chunk_map ! i =
           (fst (chunk_map ! i),
            (snd (chunk_map ! i))
              \<lparr>location := 2 + sum_list (map (size_c \<circ> snd) (take i chunk_map))\<rparr>) \<and>
         update_chunk_locations (map (\<lambda>(k, c). (k, c\<lparr>location := f k c\<rparr>)) chunk_map) =
           update_chunk_locations chunk_map \<and>
         (case write chunk_map of
            Inl e \<Rightarrow> True
          | Inr (chunk_map', out) \<Rightarrow> chunk_map' = update_chunk_locations chunk_map) \<and>
         ((\<forall>(k, c)\<in>set chunk_map. 1 \<le> size_c c) \<longrightarrow>
            2 \<le> location (snd (update_chunk_locations chunk_map ! i)) \<and>
            (\<forall>j<i. location (snd (update_chunk_locations chunk_map ! j)) +
                     size_c (snd (update_chunk_locations chunk_map ! j))
                   \<le> location (snd (update_chunk_locations chunk_map ! i))) \<and>
            (Suc i < length chunk_map \<longrightarrow>
               location (snd (update_chunk_locations chunk_map ! Suc i)) =
               location (snd (update_chunk_locations chunk_map ! i)) +
               size_c (snd (update_chunk_locations chunk_map ! i))))"
proof (intro conjI impI allI)
  show "length (update_chunk_locations chunk_map) = length chunk_map"
    by (simp add: update_chunk_locations_def length_update_from)
  show "update_chunk_locations chunk_map ! i =
           (fst (chunk_map ! i),
            (snd (chunk_map ! i))
              \<lparr>location := 2 + sum_list (map (size_c \<circ> snd) (take i chunk_map))\<rparr>)"
    using assms by (simp add: update_chunk_locations_def update_from_nth)
  show "update_chunk_locations (map (\<lambda>(k, c). (k, c\<lparr>location := f k c\<rparr>)) chunk_map) =
           update_chunk_locations chunk_map"
    by (simp add: update_chunk_locations_def update_from_ignores_location)
  show "case write chunk_map of
            Inl e \<Rightarrow> True
          | Inr (chunk_map', out) \<Rightarrow> chunk_map' = update_chunk_locations chunk_map"
    by (auto split: sum.splits dest: write_returns_compacted)
next
  assume s: "\<forall>(k, c)\<in>set chunk_map. 1 \<le> size_c c"
  show "2 \<le> location (snd (update_chunk_locations chunk_map ! i))"
    using assms sum_list_sizes_nonneg [OF s, of i]
    by (simp add: update_chunk_locations_def update_from_nth)
next
  fix j
  assume s: "\<forall>(k, c)\<in>set chunk_map. 1 \<le> size_c c" and j: "j < i"
  with assms have "j < length chunk_map" by simp
  with assms sum_list_sizes_mono [OF s j, of ] 
  show "location (snd (update_chunk_locations chunk_map ! j)) +
                     size_c (snd (update_chunk_locations chunk_map ! j))
                   \<le> location (snd (update_chunk_locations chunk_map ! i))"
    by (simp add: update_chunk_locations_def update_from_nth)
next
  assume "Suc i < length chunk_map"
  then show "location (snd (update_chunk_locations chunk_map ! Suc i)) =
               location (snd (update_chunk_locations chunk_map ! i)) +
               size_c (snd (update_chunk_locations chunk_map ! i))"
    using assms by (simp add: update_chunk_locations_def update_from_nth take_Suc_conv_app_nth)
qed

theorem compaction_is_packed_witness:
  "(0::nat) < length [(20::nat, \<lparr>timestamp = 200, location = 9, size_c = 2, chunk_data = []\<rparr>),
                      (36, \<lparr>timestamp = 50, location = 2, size_c = 1, chunk_data = []\<rparr>)] \<and>
   list_all (\<lambda>(k, c). 1 \<le> size_c c)
     [(20::nat, \<lparr>timestamp = 200, location = 9, size_c = 2, chunk_data = []\<rparr>),
      (36, \<lparr>timestamp = 50, location = 2, size_c = 1, chunk_data = []\<rparr>)] \<and>
   location (snd (update_chunk_locations
     [(20::nat, \<lparr>timestamp = 200, location = 9, size_c = 2, chunk_data = []\<rparr>),
      (36, \<lparr>timestamp = 50, location = 2, size_c = 1, chunk_data = []\<rparr>)] ! 0)) = 2 \<and>
   location (snd (update_chunk_locations
     [(20::nat, \<lparr>timestamp = 200, location = 9, size_c = 2, chunk_data = []\<rparr>),
      (36, \<lparr>timestamp = 50, location = 2, size_c = 1, chunk_data = []\<rparr>)] ! Suc 0)) = 4"
  using compaction_is_packed
    [of 0 "[(20::nat, \<lparr>timestamp = 200, location = 9, size_c = 2, chunk_data = []\<rparr>),
            (36, \<lparr>timestamp = 50, location = 2, size_c = 1, chunk_data = []\<rparr>)]"
        "\<lambda>k c. 0"]
  by simp

section \<open>Facts about the chunk objects\<close>

lemma deref_lookup: "map_of (deref h m) k = map_option h (map_of m k)"
  by (induction m) (auto simp: deref_def)

lemma deref_dict_set: "deref h (dict_set m k r) = dict_set (deref h m) k (h r)"
  by (induction m) (auto simp: deref_def)

lemma deref_contains: "dict_contains (deref h m) k = dict_contains m k"
  by (simp add: dict_contains_def deref_lookup)

lemma merge_refs_deref:
  "deref h (merge_refs h self_map other rule) = merge (deref h self_map) (deref h other) rule"
proof (induction other arbitrary: self_map)
  case Nil
  then show ?case by (simp add: deref_def)
next
  case (Cons e other)
  obtain pos r where e: "e = (pos, r)" by (cases e)
  have d: "deref h ((pos, r) # other) = (pos, h r) # deref h other" by (simp add: deref_def)
  show ?case
    unfolding e d
    by (simp add: Cons.IH deref_contains deref_lookup deref_dict_set split: option.splits)
qed

lemma update_refs_only_location:
  "\<exists>l. update_chunk_locations_refs a rs h r = (h r)\<lparr>location := l\<rparr>"
proof (induction rs arbitrary: a h)
  case Nil
  have "h r = (h r)\<lparr>location := location (h r)\<rparr>" by simp
  then show ?case by (metis update_chunk_locations_refs.simps(1))
next
  case (Cons x rs)
  let ?h1 = "h(x := (h x)\<lparr>location := a\<rparr>)"
  from Cons.IH [of "a + size_c (h x)" ?h1]
  obtain l where "update_chunk_locations_refs (a + size_c (h x)) rs ?h1 r = (?h1 r)\<lparr>location := l\<rparr>"
    by blast
  moreover have "(?h1 r)\<lparr>location := l\<rparr> = (h r)\<lparr>location := l\<rparr>" by simp
  ultimately show ?case by (metis update_chunk_locations_refs.simps(2))
qed

lemma update_refs_untouched:
  "r \<notin> set rs \<Longrightarrow> update_chunk_locations_refs a rs h r = h r"
  by (induction rs arbitrary: a h) auto

lemma update_refs_deref:
  "distinct (map snd m) \<Longrightarrow>
   deref (update_chunk_locations_refs a (map snd m) h) m = update_chunk_locations_from a (deref h m)"
proof (induction m arbitrary: a h)
  case Nil
  then show ?case by (simp add: deref_def)
next
  case (Cons e m)
  obtain pos r where e: "e = (pos, r)" by (cases e)
  let ?h1 = "h(r := (h r)\<lparr>location := a\<rparr>)"
  from Cons.prems e have fresh: "r \<notin> set (map snd m)" and d: "distinct (map snd m)" by simp_all
  have same: "deref ?h1 m = deref h m"
    using fresh by (force simp: deref_def)
  let ?h' = "update_chunk_locations_refs (a + size_c (h r)) (map snd m) ?h1"
  have "?h' r = ?h1 r"
    using fresh by (rule update_refs_untouched)
  then have r: "?h' r = (h r)\<lparr>location := a\<rparr>" by simp
  have rest: "deref ?h' m = update_chunk_locations_from (a + size_c (h r)) (deref h m)"
    using Cons.IH [OF d, of "a + size_c (h r)" ?h1] by (simp only: same)
  have "deref (update_chunk_locations_refs a (map snd (e # m)) h) (e # m) =
        (pos, ?h' r) # deref ?h' m"
    by (simp add: e deref_def)
  also have "\<dots> = (pos, (h r)\<lparr>location := a\<rparr>) #
        update_chunk_locations_from (a + size_c (h r)) (deref h m)"
    by (simp only: r rest)
  also have "\<dots> = update_chunk_locations_from a (deref h (e # m))"
    by (simp add: e deref_def)
  finally show ?case .
qed

section \<open>The claim about the incoming container\<close>

text \<open>
  C8, as the code has it. \<open>McaFile.merge\<close> assigns to \<open>self.chunk_map\<close> only, so right
  after it the incoming container is as before. It puts incoming's \<open>Chunk\<close> objects
  themselves into the target's map, and the \<open>update_chunk_locations\<close> of the following
  \<open>write\<close> assigns to the \<open>location\<close> of every object of the target's map. So after
  the merge-and-write cycle every chunk of the incoming container has its timestamp, its
  size and its payload as before; a chunk that the target adopted differs from before in
  its location at most, and a chunk that the target did not adopt is as before.
\<close>

theorem incoming_keeps_all_but_location:
  assumes "merge_and_write_refs h target source rule = (target', h')"
    and "(pos, r) \<in> set source"
  shows "timestamp (h' r) = timestamp (h r) \<and> size_c (h' r) = size_c (h r) \<and>
         chunk_data (h' r) = chunk_data (h r) \<and>
         (if r \<in> set (dict_values target') then h' r = (h r)\<lparr>location := location (h' r)\<rparr>
          else h' r = h r)"
proof -
  from assms(1) have h': "h' = update_chunk_locations_refs 2 (dict_values target') h"
    by (auto simp: merge_and_write_refs_def Let_def)
  from update_refs_only_location [of 2 "dict_values target'" h r] h'
  obtain l where l: "h' r = (h r)\<lparr>location := l\<rparr>" by blast
  then have "h' r = (h r)\<lparr>location := location (h' r)\<rparr>" by simp
  moreover have "r \<notin> set (dict_values target') \<Longrightarrow> h' r = h r"
    unfolding h' by (rule update_refs_untouched)
  ultimately show ?thesis using l by simp
qed

theorem incoming_keeps_all_but_location_witness:
  "merge_and_write_refs (\<lambda>r. \<lparr>timestamp = 7, location = 5, size_c = 1, chunk_data = [1]\<rparr>)
     [] [(0, 0)] MergeRuleNever =
   (merge_refs (\<lambda>r. \<lparr>timestamp = 7, location = 5, size_c = 1, chunk_data = [1]\<rparr>)
      [] [(0, 0)] MergeRuleNever,
    snd (merge_and_write_refs (\<lambda>r. \<lparr>timestamp = 7, location = 5, size_c = 1, chunk_data = [1]\<rparr>)
     [] [(0, 0)] MergeRuleNever)) \<and>
   (0 :: nat, 0 :: nat) \<in> set [(0, 0)] \<and>
   timestamp (snd (merge_and_write_refs
      (\<lambda>r. \<lparr>timestamp = 7, location = 5, size_c = 1, chunk_data = [1]\<rparr>)
      [] [(0, 0)] MergeRuleNever) 0) = 7 \<and>
   chunk_data (snd (merge_and_write_refs
      (\<lambda>r. \<lparr>timestamp = 7, location = 5, size_c = 1, chunk_data = [1]\<rparr>)
      [] [(0, 0)] MergeRuleNever) 0) = [1]"
proof -
  let ?h = "\<lambda>r :: nat. \<lparr>timestamp = 7, location = 5, size_c = 1, chunk_data = [1 :: byte]\<rparr>"
  have m: "merge_and_write_refs ?h [] [(0, 0)] MergeRuleNever =
      (merge_refs ?h [] [(0, 0)] MergeRuleNever,
       snd (merge_and_write_refs ?h [] [(0, 0)] MergeRuleNever))"
    by (simp add: merge_and_write_refs_def Let_def)
  have s: "(0 :: nat, 0 :: nat) \<in> set [(0, 0)]" by simp
  from incoming_keeps_all_but_location [OF m s] m s show ?thesis by simp
qed

text \<open>
  An empty target adopts the only chunk of the incoming container, whose location is 5:
  after the cycle the location of that chunk is 2.
\<close>

theorem incoming_location_counterexample:
  "location (snd (merge_and_write_refs
      (\<lambda>r. \<lparr>timestamp = 7, location = 5, size_c = 1, chunk_data = [1]\<rparr>)
      [] [(0, 0)] MergeRuleNever) 0) = 2 \<and>
   location ((\<lambda>r :: nat. \<lparr>timestamp = 7, location = 5, size_c = 1, chunk_data = [1 :: byte]\<rparr>) 0) = 5"
  by (simp add: merge_and_write_refs_def Let_def dict_contains_def dict_values_def)

section \<open>Facts about writing a region file\<close>

lemma set_location_ok:
  assumes "pos + 3 < length locations"
  shows "set_location locations pos chunk = Inr (write_entry locations pos (location_bytes chunk))"
  using assms
  by (simp add: set_location_def bytearray_set_def bind_err_def write_entry_def location_bytes_def)

lemma set_timestamp_ok:
  assumes "pos + 3 < length timestamps"
  shows "set_timestamp timestamps pos chunk =
         Inr (write_entry timestamps pos (timestamp_bytes chunk))"
  using assms
  by (simp add: set_timestamp_def bytearray_set_def bind_err_def write_entry_def
      timestamp_bytes_def)

lemma length_write_entry: "length (write_entry arr pos bs) = length arr"
  by (simp add: write_entry_def)

lemma length_fill_table: "length (fill_table f chunk_map arr) = length arr"
  unfolding fill_table_def
  by (induction chunk_map arbitrary: arr) (auto simp: length_write_entry)

lemma fill_table_Cons:
  "fill_table f ((pos, chunk) # chunk_map) arr =
   fill_table f chunk_map (write_entry arr pos (f chunk))"
  by (simp add: fill_table_def)

lemma write_loop_closed:
  "\<forall>(pos, chunk)\<in>set chunk_map. pos + 3 < length locations \<and> pos + 3 < length timestamps \<Longrightarrow>
   write_loop chunk_map locations timestamps d m =
   Inr (fill_table location_bytes chunk_map locations,
        fill_table timestamp_bytes chunk_map timestamps,
        payload_dict d chunk_map, max_pos_of m chunk_map)"
proof (induction chunk_map arbitrary: locations timestamps d m)
  case Nil
  then show ?case by (simp add: fill_table_def payload_dict_def max_pos_of_def)
next
  case (Cons e chunk_map)
  obtain pos chunk where e: "e = (pos, chunk)" by (cases e)
  from Cons.prems e have here: "pos + 3 < length locations" "pos + 3 < length timestamps"
    by simp_all
  let ?L = "write_entry locations pos (location_bytes chunk)"
  let ?T = "write_entry timestamps pos (timestamp_bytes chunk)"
  from Cons.prems have rest:
    "\<forall>(pos, chunk)\<in>set chunk_map. pos + 3 < length ?L \<and> pos + 3 < length ?T"
    by (simp add: length_write_entry)
  show ?case
    unfolding e
    by (simp add: set_location_ok [OF here(1)] set_timestamp_ok [OF here(2)] bind_err_def
        Let_def Cons.IH [OF rest] fill_table_def payload_dict_def max_pos_of_def
        byte_position_def)
qed

lemma write_entry_nth_other:
  "\<not> (pos \<le> i \<and> i < pos + 4) \<Longrightarrow> write_entry arr pos bs ! i = arr ! i"
proof -
  assume "\<not> (pos \<le> i \<and> i < pos + 4)"
  then have "pos \<noteq> i" "pos + 1 \<noteq> i" "pos + 2 \<noteq> i" "pos + 3 \<noteq> i" by linarith+
  then show ?thesis unfolding write_entry_def by simp
qed

lemma write_entry_nth:
  "pos + 3 < length arr \<Longrightarrow> j < 4 \<Longrightarrow> write_entry arr pos bs ! (pos + j) = bs ! j"
proof -
  assume a: "pos + 3 < length arr" "j < 4"
  then consider "j = 0" | "j = 1" | "j = 2" | "j = 3" by linarith
  then show ?thesis using a by cases (simp_all add: write_entry_def)
qed

lemma fill_table_untouched:
  "\<forall>(pos, chunk)\<in>set chunk_map. \<not> (pos \<le> i \<and> i < pos + 4) \<Longrightarrow>
   fill_table f chunk_map arr ! i = arr ! i"
proof (induction chunk_map arbitrary: arr)
  case Nil
  then show ?case by (simp add: fill_table_def)
next
  case (Cons e chunk_map)
  obtain pos chunk where e: "e = (pos, chunk)" by (cases e)
  from Cons.prems e have here: "\<not> (pos \<le> i \<and> i < pos + 4)"
    and rest: "\<forall>(pos, chunk)\<in>set chunk_map. \<not> (pos \<le> i \<and> i < pos + 4)" by simp_all
  show ?case
    unfolding e fill_table_Cons
    by (simp only: Cons.IH [OF rest] write_entry_nth_other [OF here])
qed

lemma fill_table_entry:
  assumes "distinct (map fst chunk_map)"
    and "\<forall>(p, c)\<in>set chunk_map. p mod 4 = 0"
    and "(pos, chunk) \<in> set chunk_map"
    and "pos + 3 < length arr" and "j < 4"
  shows "fill_table f chunk_map arr ! (pos + j) = f chunk ! j"
  using assms
proof (induction chunk_map arbitrary: arr)
  case Nil
  then show ?case by simp
next
  case (Cons e chunk_map)
  obtain p c where e: "e = (p, c)" by (cases e)
  from Cons.prems e have d: "distinct (map fst chunk_map)" and fresh: "p \<notin> set (map fst chunk_map)"
    and al: "\<forall>(p, c)\<in>set chunk_map. p mod 4 = 0" and pal: "p mod 4 = 0"
    by simp_all
  show ?case
  proof (cases "p = pos")
    case True
    with Cons.prems(3) e fresh have c: "c = chunk" by (auto simp: rev_image_eqI)
    have "\<forall>(q, c')\<in>set chunk_map. \<not> (q \<le> pos + j \<and> pos + j < q + 4)"
    proof (clarify)
      fix q c' assume q: "(q, c') \<in> set chunk_map" "q \<le> pos + j" "pos + j < q + 4"
      with al have "q mod 4 = 0" by auto
      moreover from q fresh True have "q \<noteq> pos" by (auto simp: rev_image_eqI)
      moreover from pal True have "pos mod 4 = 0" by simp
      ultimately show False using q(2,3) \<open>j < 4\<close> by presburger
    qed
    from fill_table_untouched [OF this] True c Cons.prems(4,5) show ?thesis
      unfolding e fill_table_Cons by (simp add: write_entry_nth)
  next
    case False
    with Cons.prems(3) e have mem: "(pos, chunk) \<in> set chunk_map" by simp
    from Cons.prems(4) have len: "pos + 3 < length (write_entry arr p (f c))"
      by (simp add: length_write_entry)
    from Cons.IH [OF d al mem len \<open>j < 4\<close>] show ?thesis
      unfolding e fill_table_Cons .
  qed
qed

lemma update_from_location_ge:
  "\<forall>(k, c)\<in>set chunk_map. 0 \<le> size_c c \<Longrightarrow>
   (k, c) \<in> set (update_chunk_locations_from a chunk_map) \<Longrightarrow> a \<le> location c"
proof (induction chunk_map arbitrary: a)
  case Nil
  then show ?case by simp
next
  case (Cons e chunk_map)
  obtain pos chunk where e: "e = (pos, chunk)" by (cases e)
  from Cons.prems(1) e have sz: "0 \<le> size_c chunk"
    and rest: "\<forall>(k, c)\<in>set chunk_map. 0 \<le> size_c c" by simp_all
  from Cons.prems(2) e
  consider "c = chunk\<lparr>location := a\<rparr>"
    | "(k, c) \<in> set (update_chunk_locations_from (a + size_c chunk) chunk_map)" by auto
  then show ?case
  proof cases
    case 1
    then show ?thesis by simp
  next
    case 2
    from Cons.IH [OF rest 2] sz show ?thesis by simp
  qed
qed

lemma update_from_distinct_locations:
  "\<forall>(k, c)\<in>set chunk_map. 1 \<le> size_c c \<Longrightarrow>
   distinct (map (location \<circ> snd) (update_chunk_locations_from a chunk_map))"
proof (induction chunk_map arbitrary: a)
  case Nil
  then show ?case by simp
next
  case (Cons e chunk_map)
  obtain pos chunk where e: "e = (pos, chunk)" by (cases e)
  from Cons.prems e have sz: "1 \<le> size_c chunk"
    and rest: "\<forall>(k, c)\<in>set chunk_map. 1 \<le> size_c c" by simp_all
  from rest have rest0: "\<forall>(k, c)\<in>set chunk_map. 0 \<le> size_c c" by fastforce
  have "a \<notin> set (map (location \<circ> snd) (update_chunk_locations_from (a + size_c chunk) chunk_map))"
  proof
    assume "a \<in> set (map (location \<circ> snd)
                 (update_chunk_locations_from (a + size_c chunk) chunk_map))"
    then obtain k c where "(k, c) \<in> set (update_chunk_locations_from (a + size_c chunk) chunk_map)"
      and "location c = a" by auto
    with update_from_location_ge [OF rest0, of k c "a + size_c chunk"] sz show False by simp
  qed
  with Cons.IH [OF rest, of "a + size_c chunk"] e show ?case by simp
qed

lemma payload_dict_Cons:
  "payload_dict d ((pos, chunk) # chunk_map) =
   payload_dict (dict_set d (location chunk) (chunk_data chunk)) chunk_map"
  by (simp add: payload_dict_def)

lemma payload_dict_fresh:
  "distinct (map (location \<circ> snd) chunk_map) \<Longrightarrow>
   \<forall>(k, c)\<in>set chunk_map. location c \<notin> set (map fst d) \<Longrightarrow>
   payload_dict d chunk_map = d @ map (\<lambda>(pos, c). (location c, chunk_data c)) chunk_map"
proof (induction chunk_map arbitrary: d)
  case Nil
  then show ?case by (simp add: payload_dict_def)
next
  case (Cons e chunk_map)
  obtain pos chunk where e: "e = (pos, chunk)" by (cases e)
  from Cons.prems e have fresh: "location chunk \<notin> set (map fst d)"
    and dist: "distinct (map (location \<circ> snd) chunk_map)"
    and notin: "location chunk \<notin> set (map (location \<circ> snd) chunk_map)"
    and others: "\<forall>(k, c)\<in>set chunk_map. location c \<notin> set (map fst d)"
    by (simp_all add: comp_def)
  let ?d = "d @ [(location chunk, chunk_data chunk)]"
  have set': "dict_set d (location chunk) (chunk_data chunk) = ?d"
    using fresh by (rule dict_set_absent)
  have "\<forall>(k, c)\<in>set chunk_map. location c \<notin> set (map fst ?d)"
    using others notin by (auto simp: rev_image_eqI)
  from Cons.IH [OF dist this] show ?case
    unfolding e payload_dict_Cons set' by simp
qed

lemma max_pos_of_Cons:
  "max_pos_of m ((pos, chunk) # chunk_map) =
   max_pos_of (if byte_position chunk > m then byte_position chunk else m) chunk_map"
  by (simp add: max_pos_of_def)

lemma max_pos_of_packed:
  "\<forall>(k, c)\<in>set chunk_map. 0 \<le> size_c c \<Longrightarrow>
   max_pos_of ((a - 2) * 4096) (update_chunk_locations_from a chunk_map) =
   (a + total_sectors chunk_map - 2) * 4096"
proof (induction chunk_map arbitrary: a)
  case Nil
  then show ?case by (simp add: max_pos_of_def total_sectors_def)
next
  case (Cons e chunk_map)
  obtain pos chunk where e: "e = (pos, chunk)" by (cases e)
  from Cons.prems e have sz: "0 \<le> size_c chunk"
    and rest: "\<forall>(k, c)\<in>set chunk_map. 0 \<le> size_c c" by simp_all
  have bp: "byte_position (chunk\<lparr>location := a\<rparr>) = (a + size_c chunk - 2) * 4096"
    by (simp add: byte_position_def algebra_simps)
  have m: "(if byte_position (chunk\<lparr>location := a\<rparr>) > (a - 2) * 4096
            then byte_position (chunk\<lparr>location := a\<rparr>) else (a - 2) * 4096) =
           (a + size_c chunk - 2) * 4096"
    using sz unfolding bp by auto
  have "max_pos_of ((a - 2) * 4096) (update_chunk_locations_from a (e # chunk_map)) =
        max_pos_of ((a + size_c chunk - 2) * 4096)
          (update_chunk_locations_from (a + size_c chunk) chunk_map)"
    unfolding e by (simp only: update_chunk_locations_from.simps max_pos_of_Cons m)
  also have "\<dots> = (a + size_c chunk + total_sectors chunk_map - 2) * 4096"
    by (rule Cons.IH [OF rest])
  finally show ?case by (simp add: e total_sectors_def algebra_simps)
qed

lemma max_pos_of_Max:
  "max_pos_of m chunk_map = Max (insert m ((\<lambda>(pos, c). byte_position c) ` set chunk_map))"
proof (induction chunk_map arbitrary: m)
  case Nil
  then show ?case by (simp add: max_pos_of_def)
next
  case (Cons e chunk_map)
  obtain pos chunk where e: "e = (pos, chunk)" by (cases e)
  let ?S = "(\<lambda>(pos, c). byte_position c) ` set chunk_map"
  have fin: "finite ?S" by simp
  have "(if byte_position chunk > m then byte_position chunk else m) = max m (byte_position chunk)"
    by (simp add: max_def)
  then have "max_pos_of m (e # chunk_map) = Max (insert (max m (byte_position chunk)) ?S)"
    unfolding e max_pos_of_Cons by (simp only: Cons.IH)
  also have "\<dots> = Max (insert m (insert (byte_position chunk) ?S))"
  proof (cases "?S = {}")
    case True
    then show ?thesis by simp
  next
    case False
    with fin show ?thesis by (simp add: max.assoc)
  qed
  finally show ?case by (simp add: e)
qed

lemma py_slice_assign_nonneg:
  "0 \<le> a \<Longrightarrow> a \<le> b \<Longrightarrow>
   py_slice_assign xs a b ys = take (nat a) xs @ ys @ drop (nat b) xs"
  by (auto simp: py_slice_assign_def slice_index_def Let_def min_def max_def)

lemma join_header:
  assumes "length locations = 4096" "length timestamps = 4096" "0 \<le> max_pos"
  shows "join locations timestamps data_list max_pos =
         join_loop data_list (locations @ timestamps @ replicate (nat max_pos) 0)"
proof -
  let ?res0 = "replicate (nat (int (length locations) + int (length timestamps) + max_pos)) (0 :: byte)"
  have n: "nat (int (length locations) + int (length timestamps) + max_pos) = 8192 + nat max_pos"
    using assms by simp
  have "py_slice_assign ?res0 0 (int (length locations)) locations =
        locations @ replicate (4096 + nat max_pos) 0"
    using assms by (simp add: py_slice_assign_nonneg n)
  moreover have "py_slice_assign (locations @ replicate (4096 + nat max_pos) 0) 4096 (4096 * 2)
                   timestamps = locations @ timestamps @ replicate (nat max_pos) 0"
    using assms by (simp add: py_slice_assign_nonneg)
  ultimately show ?thesis by (simp add: join_def Let_def)
qed

lemma length_padded_payload:
  "int (length (chunk_data c)) \<le> size_c c * 4096 \<Longrightarrow>
   length (padded_payload c) = nat (size_c c * 4096)"
  by (simp add: padded_payload_def)

lemma py_slice_assign_block:
  assumes "int (length A) = a * 4096" and "int (length (chunk_data c)) \<le> size_c c * 4096"
    and "size_c c * 4096 \<le> int n"
  shows "py_slice_assign (A @ replicate n 0) (a * 4096)
           (a * 4096 + int (length (chunk_data c))) (chunk_data c) =
         (A @ padded_payload c) @ replicate (n - nat (size_c c * 4096)) 0"
proof -
  have a: "0 \<le> a * 4096" using assms(1) by linarith
  have na: "nat (a * 4096) = length A" using assms(1) by linarith
  have nb: "nat (a * 4096 + int (length (chunk_data c))) = length A + length (chunk_data c)"
    using assms(1) by linarith
  have le: "length (chunk_data c) \<le> n" using assms(2,3) by linarith
  have "py_slice_assign (A @ replicate n 0) (a * 4096)
           (a * 4096 + int (length (chunk_data c))) (chunk_data c) =
        A @ chunk_data c @ replicate (n - length (chunk_data c)) 0"
    using a by (simp add: py_slice_assign_nonneg na nb)
  also have "replicate (n - length (chunk_data c)) (0 :: byte) =
        replicate (nat (size_c c * 4096) - length (chunk_data c)) 0 @
        replicate (n - nat (size_c c * 4096)) 0"
    using assms(2,3) le by (simp add: replicate_add [symmetric] del: replicate_add) 
  finally show ?thesis by (simp add: padded_payload_def)
qed

lemma join_loop_packed:
  assumes "\<forall>(k, c)\<in>set chunk_map. 0 \<le> size_c c \<and> int (length (chunk_data c)) \<le> size_c c * 4096"
    and "int (length A) = a * 4096"
    and "total_sectors chunk_map * 4096 \<le> int n"
  shows "join_loop (map (\<lambda>(pos, c). (location c, chunk_data c))
                      (update_chunk_locations_from a chunk_map)) (A @ replicate n 0) =
         A @ concat (map (padded_payload \<circ> snd) chunk_map) @
           replicate (n - nat (total_sectors chunk_map * 4096)) 0"
  using assms
proof (induction chunk_map arbitrary: a A n)
  case Nil
  then show ?case by (simp add: total_sectors_def)
next
  case (Cons e chunk_map)
  obtain pos chunk where e: "e = (pos, chunk)" by (cases e)
  from Cons.prems(1) e have sz: "0 \<le> size_c chunk"
    and len: "int (length (chunk_data chunk)) \<le> size_c chunk * 4096"
    and rest: "\<forall>(k, c)\<in>set chunk_map. 0 \<le> size_c c \<and>
                 int (length (chunk_data c)) \<le> size_c c * 4096"
    by simp_all
  have tot: "total_sectors (e # chunk_map) = size_c chunk + total_sectors chunk_map"
    by (simp add: e total_sectors_def)
  have tot0: "0 \<le> total_sectors chunk_map"
    unfolding total_sectors_def using rest by (intro sum_list_nonneg) auto
  from Cons.prems(3) tot tot0 have fits: "size_c chunk * 4096 \<le> int n" by simp
  let ?A = "A @ padded_payload chunk"
  let ?n = "n - nat (size_c chunk * 4096)"
  have lenA: "int (length ?A) = (a + size_c chunk) * 4096"
    using Cons.prems(2) len sz by (simp add: length_padded_payload algebra_simps)
  have n': "total_sectors chunk_map * 4096 \<le> int ?n"
    using Cons.prems(3) tot sz by simp
  have "join_loop (map (\<lambda>(pos, c). (location c, chunk_data c))
                      (update_chunk_locations_from a (e # chunk_map))) (A @ replicate n 0) =
        join_loop (map (\<lambda>(pos, c). (location c, chunk_data c))
                      (update_chunk_locations_from (a + size_c chunk) chunk_map))
          (py_slice_assign (A @ replicate n 0) (a * 4096)
             (a * 4096 + int (length (chunk_data chunk))) (chunk_data chunk))"
    by (simp add: e Let_def)
  also have "\<dots> = join_loop (map (\<lambda>(pos, c). (location c, chunk_data c))
                      (update_chunk_locations_from (a + size_c chunk) chunk_map))
                    (?A @ replicate ?n 0)"
    by (simp only: py_slice_assign_block [OF Cons.prems(2) len fits])
  also have "\<dots> = ?A @ concat (map (padded_payload \<circ> snd) chunk_map) @
                     replicate (?n - nat (total_sectors chunk_map * 4096)) 0"
    by (rule Cons.IH [OF rest lenA n'])
  also have "?n - nat (total_sectors chunk_map * 4096) =
             n - nat (total_sectors (e # chunk_map) * 4096)"
    using tot sz tot0 by (simp add: nat_add_distrib algebra_simps)
  finally show ?case by (simp add: e)
qed

lemma update_from_keys: "map fst (update_chunk_locations_from a chunk_map) = map fst chunk_map"
  by (induction chunk_map arbitrary: a) auto

lemma writable_sizes:
  "writable chunk_map \<Longrightarrow> (k, c) \<in> set chunk_map \<Longrightarrow>
   slot_key k \<and> 1 \<le> size_c c \<and> size_c c \<le> 255 \<and>
   int (length (chunk_data c)) \<le> size_c c * 4096"
  unfolding writable_def by blast

lemma write_layout:
  assumes "writable chunk_map"
  shows "write chunk_map =
         Inr (update_chunk_locations chunk_map,
              fill_table location_bytes (update_chunk_locations chunk_map) (replicate 4096 0) @
              fill_table timestamp_bytes (update_chunk_locations chunk_map) (replicate 4096 0) @
              concat (map (padded_payload \<circ> snd) chunk_map))"
proof -
  let ?cm = "update_chunk_locations chunk_map"
  let ?Z = "replicate 4096 (0 :: byte)"
  let ?L = "fill_table location_bytes ?cm ?Z"
  let ?T = "fill_table timestamp_bytes ?cm ?Z"
  let ?dl = "map (\<lambda>(pos, c). (location c, chunk_data c)) ?cm"
  have s1: "\<forall>(k, c)\<in>set chunk_map. 1 \<le> size_c c"
    using writable_sizes [OF assms] by blast
  have s0: "\<forall>(k, c)\<in>set chunk_map. 0 \<le> size_c c"
    using writable_sizes [OF assms] by fastforce
  have s0l: "\<forall>(k, c)\<in>set chunk_map. 0 \<le> size_c c \<and>
               int (length (chunk_data c)) \<le> size_c c * 4096"
    using writable_sizes [OF assms] by fastforce
  have keys: "\<forall>(pos, chunk)\<in>set ?cm. pos + 3 < length ?Z \<and> pos + 3 < length ?Z"
  proof (clarify)
    fix pos chunk assume "(pos, chunk) \<in> set ?cm"
    then have "pos \<in> set (map fst ?cm)" by (simp add: rev_image_eqI)
    then have "pos \<in> set (map fst chunk_map)"
      by (simp only: update_chunk_locations_def update_from_keys)
    then obtain c0 where "(pos, c0) \<in> set chunk_map" by auto
    from writable_sizes [OF assms this] have "pos mod 4 = 0" "pos < 4096"
      by (simp_all add: slot_key_def)
    then have "pos + 3 < 4096" by presburger
    then show "pos + 3 < length ?Z \<and> pos + 3 < length ?Z" by simp
  qed
  have loop: "write_loop ?cm ?Z ?Z [] 0 = Inr (?L, ?T, payload_dict [] ?cm, max_pos_of 0 ?cm)"
    by (rule write_loop_closed [OF keys])
  have dl: "payload_dict [] ?cm = ?dl"
    using payload_dict_fresh [of ?cm "[]"] update_from_distinct_locations [OF s1, of 2]
    by (simp add: update_chunk_locations_def)
  have "max_pos_of ((2 - 2) * 4096) (update_chunk_locations_from 2 chunk_map) =
        (2 + total_sectors chunk_map - 2) * 4096"
    by (rule max_pos_of_packed [OF s0])
  then have mp: "max_pos_of 0 ?cm = total_sectors chunk_map * 4096"
    by (simp add: update_chunk_locations_def)
  have tot0: "0 \<le> total_sectors chunk_map"
    unfolding total_sectors_def using s0 by (intro sum_list_nonneg) auto
  have lens: "length ?L = 4096" "length ?T = 4096" by (simp_all add: length_fill_table)
  have "join ?L ?T ?dl (total_sectors chunk_map * 4096) =
        join_loop ?dl (?L @ ?T @ replicate (nat (total_sectors chunk_map * 4096)) 0)"
    using tot0 by (intro join_header lens) simp
  also have "\<dots> = join_loop ?dl ((?L @ ?T) @ replicate (nat (total_sectors chunk_map * 4096)) 0)"
    by simp
  also have "\<dots> = (?L @ ?T) @ concat (map (padded_payload \<circ> snd) chunk_map) @
      replicate (nat (total_sectors chunk_map * 4096) - nat (total_sectors chunk_map * 4096)) 0"
    unfolding update_chunk_locations_def
    by (rule join_loop_packed [OF s0l]) (use tot0 lens in \<open>simp_all add: update_chunk_locations_def\<close>)
  finally have j: "join ?L ?T ?dl (total_sectors chunk_map * 4096) =
      ?L @ ?T @ concat (map (padded_payload \<circ> snd) chunk_map)" by simp
  show ?thesis
    unfolding write_def Let_def loop bind_err_def dl mp
    by (simp only: sum.case prod.case j)
qed

lemma length_concat_padded:
  "\<forall>(k, c)\<in>set chunk_map. 0 \<le> size_c c \<and> int (length (chunk_data c)) \<le> size_c c * 4096 \<Longrightarrow>
   int (length (concat (map (padded_payload \<circ> snd) chunk_map))) = total_sectors chunk_map * 4096"
proof (induction chunk_map)
  case Nil
  then show ?case by (simp add: total_sectors_def)
next
  case (Cons e chunk_map)
  then show ?case
    by (cases e) (simp add: total_sectors_def length_padded_payload algebra_simps)
qed

section \<open>Facts about the layout of the written file\<close>

lemma padded_payload_location [simp]:
  "padded_payload (chunk\<lparr>location := a\<rparr>) = padded_payload chunk"
  by (simp add: padded_payload_def)

lemma packed_payload_at:
  assumes "\<forall>(k, c)\<in>set chunk_map. 0 \<le> size_c c \<and> int (length (chunk_data c)) \<le> size_c c * 4096"
    and "(k, c) \<in> set (update_chunk_locations_from a chunk_map)"
  shows "\<exists>rest. drop (nat ((location c - a) * 4096))
                  (concat (map (padded_payload \<circ> snd) chunk_map)) = padded_payload c @ rest"
  using assms
proof (induction chunk_map arbitrary: a)
  case Nil
  then show ?case by simp
next
  case (Cons e chunk_map)
  obtain pos chunk where e: "e = (pos, chunk)" by (cases e)
  from Cons.prems(1) e have sz: "0 \<le> size_c chunk"
    and len: "int (length (chunk_data chunk)) \<le> size_c chunk * 4096"
    and rest: "\<forall>(k, c)\<in>set chunk_map. 0 \<le> size_c c \<and>
                 int (length (chunk_data c)) \<le> size_c c * 4096"
    by simp_all
  from rest have rest0: "\<forall>(k, c)\<in>set chunk_map. 0 \<le> size_c c" by fastforce
  from Cons.prems(2) e
  consider "c = chunk\<lparr>location := a\<rparr>"
    | "(k, c) \<in> set (update_chunk_locations_from (a + size_c chunk) chunk_map)" by auto
  then show ?case
  proof cases
    case 1
    then show ?thesis by (simp add: e)
  next
    case 2
    from Cons.IH [OF rest 2] obtain r where
      r: "drop (nat ((location c - (a + size_c chunk)) * 4096))
            (concat (map (padded_payload \<circ> snd) chunk_map)) = padded_payload c @ r" by blast
    from update_from_location_ge [OF rest0 2] have ge: "a + size_c chunk \<le> location c" .
    have "nat ((location c - a) * 4096) =
          length (padded_payload chunk) + nat ((location c - (a + size_c chunk)) * 4096)"
      using ge sz by (simp add: length_padded_payload [OF len] nat_add_distrib [symmetric])
    then show ?thesis using r by (simp add: e comp_def)
  qed
qed

lemma packed_zero:
  assumes "\<forall>(k, c)\<in>set chunk_map. 0 \<le> size_c c \<and> int (length (chunk_data c)) \<le> size_c c * 4096"
    and "j < length (concat (map (padded_payload \<circ> snd) chunk_map))"
    and "\<forall>(k, c)\<in>set (update_chunk_locations_from a chunk_map).
           \<not> (nat ((location c - a) * 4096) \<le> j \<and>
              j < nat ((location c - a) * 4096) + length (chunk_data c))"
  shows "concat (map (padded_payload \<circ> snd) chunk_map) ! j = 0"
  using assms
proof (induction chunk_map arbitrary: a j)
  case Nil
  then show ?case by simp
next
  case (Cons e chunk_map)
  obtain pos chunk where e: "e = (pos, chunk)" by (cases e)
  from Cons.prems(1) e have sz: "0 \<le> size_c chunk"
    and len: "int (length (chunk_data chunk)) \<le> size_c chunk * 4096"
    and rest: "\<forall>(k, c)\<in>set chunk_map. 0 \<le> size_c c \<and>
                 int (length (chunk_data c)) \<le> size_c c * 4096"
    by simp_all
  from rest have rest0: "\<forall>(k, c)\<in>set chunk_map. 0 \<le> size_c c" by fastforce
  have lp: "length (padded_payload chunk) = nat (size_c chunk * 4096)"
    by (rule length_padded_payload [OF len])
  from Cons.prems(3) e have head: "\<not> j < length (chunk_data chunk)" by simp
  show ?case
  proof (cases "j < length (padded_payload chunk)")
    case True
    with head have "padded_payload chunk ! j = 0"
      by (simp add: padded_payload_def nth_append)
    with True show ?thesis by (simp add: e nth_append)
  next
    case False
    let ?j = "j - length (padded_payload chunk)"
    from False Cons.prems(2) e
    have j': "?j < length (concat (map (padded_payload \<circ> snd) chunk_map))"
      by (simp add: comp_def)
    have "\<forall>(k, c)\<in>set (update_chunk_locations_from (a + size_c chunk) chunk_map).
           \<not> (nat ((location c - (a + size_c chunk)) * 4096) \<le> ?j \<and>
              ?j < nat ((location c - (a + size_c chunk)) * 4096) + length (chunk_data c))"
    proof (clarify)
      fix k c
      assume m: "(k, c) \<in> set (update_chunk_locations_from (a + size_c chunk) chunk_map)"
        and lo: "nat ((location c - (a + size_c chunk)) * 4096) \<le> ?j"
        and hi: "?j < nat ((location c - (a + size_c chunk)) * 4096) + length (chunk_data c)"
      from update_from_location_ge [OF rest0 m] have ge: "a + size_c chunk \<le> location c" .
      have eq: "nat ((location c - a) * 4096) =
          length (padded_payload chunk) + nat ((location c - (a + size_c chunk)) * 4096)"
        using ge sz by (simp add: lp nat_add_distrib [symmetric])
      from m e have "(k, c) \<in> set (update_chunk_locations_from a (e # chunk_map))" by simp
      with Cons.prems(3) have "\<not> (nat ((location c - a) * 4096) \<le> j \<and>
              j < nat ((location c - a) * 4096) + length (chunk_data c))" by blast
      with lo hi False show False unfolding eq by linarith
    qed
    from Cons.IH [OF rest j' this] False show ?thesis by (simp add: e nth_append)
  qed
qed

lemma writable_lengths:
  "writable chunk_map \<Longrightarrow>
   \<forall>(k, c)\<in>set chunk_map. 0 \<le> size_c c \<and> int (length (chunk_data c)) \<le> size_c c * 4096"
  unfolding writable_def by fastforce

lemma layout_length:
  assumes "writable chunk_map"
  shows "int (length (fill_table location_bytes (update_chunk_locations chunk_map) (replicate 4096 0) @
              fill_table timestamp_bytes (update_chunk_locations chunk_map) (replicate 4096 0) @
              concat (map (padded_payload \<circ> snd) chunk_map))) =
         8192 + Max (insert 0 ((\<lambda>(pos, c). (location c + size_c c - 2) * 4096) `
                                  set (update_chunk_locations chunk_map)))"
proof -
  have s0: "\<forall>(k, c)\<in>set chunk_map. 0 \<le> size_c c"
    using writable_lengths [OF assms] by fastforce
  have "max_pos_of ((2 - 2) * 4096) (update_chunk_locations_from 2 chunk_map) =
        (2 + total_sectors chunk_map - 2) * 4096"
    by (rule max_pos_of_packed [OF s0])
  then have "total_sectors chunk_map * 4096 = max_pos_of 0 (update_chunk_locations chunk_map)"
    by (simp add: update_chunk_locations_def)
  also have "\<dots> = Max (insert 0 ((\<lambda>(pos, c). byte_position c) `
                                  set (update_chunk_locations chunk_map)))"
    by (rule max_pos_of_Max)
  also have "(\<lambda>(pos :: nat, c). byte_position c) = (\<lambda>(pos, c). (location c + size_c c - 2) * 4096)"
    by (simp add: byte_position_def fun_eq_iff add.commute)
  finally have "total_sectors chunk_map * 4096 =
      Max (insert 0 ((\<lambda>(pos, c). (location c + size_c c - 2) * 4096) `
                                  set (update_chunk_locations chunk_map)))" .
  then show ?thesis
    using length_concat_padded [OF writable_lengths [OF assms]]
    by (simp add: length_fill_table)
qed

lemma layout_payload:
  assumes "writable chunk_map" and "(pos, c) \<in> set (update_chunk_locations chunk_map)"
    and "length L = 4096" and "length T = 4096"
  shows "take (length (chunk_data c))
           (drop (nat (location c * 4096))
              (L @ T @ concat (map (padded_payload \<circ> snd) chunk_map))) = chunk_data c"
proof -
  have s0: "\<forall>(k, c)\<in>set chunk_map. 0 \<le> size_c c"
    using writable_lengths [OF assms(1)] by fastforce
  from assms(2) have m: "(pos, c) \<in> set (update_chunk_locations_from 2 chunk_map)"
    by (simp add: update_chunk_locations_def)
  from update_from_location_ge [OF s0 m] have ge: "2 \<le> location c" .
  from packed_payload_at [OF writable_lengths [OF assms(1)] m] obtain rest where
    r: "drop (nat ((location c - 2) * 4096)) (concat (map (padded_payload \<circ> snd) chunk_map)) =
        padded_payload c @ rest" by blast
  have "nat (location c * 4096) = 8192 + nat ((location c - 2) * 4096)" using ge by simp
  then have "drop (nat (location c * 4096))
              (L @ T @ concat (map (padded_payload \<circ> snd) chunk_map)) = padded_payload c @ rest"
    using assms(3,4) r by simp
  then show ?thesis by (simp add: padded_payload_def)
qed

lemma layout_zero:
  assumes "writable chunk_map"
    and "i < length (fill_table f (update_chunk_locations chunk_map) (replicate 4096 0) @
              fill_table g (update_chunk_locations chunk_map) (replicate 4096 0) @
              concat (map (padded_payload \<circ> snd) chunk_map))"
    and "\<forall>(pos, c)\<in>set (update_chunk_locations chunk_map).
           \<not> (pos \<le> i \<and> i < pos + 4) \<and> \<not> (4096 + pos \<le> i \<and> i < 4096 + pos + 4) \<and>
           \<not> (nat (location c * 4096) \<le> i \<and>
              i < nat (location c * 4096) + length (chunk_data c))"
  shows "(fill_table f (update_chunk_locations chunk_map) (replicate 4096 0) @
              fill_table g (update_chunk_locations chunk_map) (replicate 4096 0) @
              concat (map (padded_payload \<circ> snd) chunk_map)) ! i = 0"
proof -
  let ?cm = "update_chunk_locations chunk_map"
  let ?L = "fill_table f ?cm (replicate 4096 0)"
  let ?T = "fill_table g ?cm (replicate 4096 0)"
  let ?P = "concat (map (padded_payload \<circ> snd) chunk_map)"
  have lens: "length ?L = 4096" "length ?T = 4096" by (simp_all add: length_fill_table)
  have s0: "\<forall>(k, c)\<in>set chunk_map. 0 \<le> size_c c"
    using writable_lengths [OF assms(1)] by fastforce
  consider "i < 4096" | "4096 \<le> i" "i < 8192" | "8192 \<le> i" by linarith
  then show ?thesis
  proof cases
    case 1
    have "\<forall>(pos, c)\<in>set ?cm. \<not> (pos \<le> i \<and> i < pos + 4)" using assms(3) by fastforce
    from fill_table_untouched [OF this, of f "replicate 4096 0"] 1 lens show ?thesis
      by (simp add: nth_append)
  next
    case 2
    have "\<forall>(pos, c)\<in>set ?cm. \<not> (pos \<le> i - 4096 \<and> i - 4096 < pos + 4)"
      using assms(3) 2 by fastforce
    moreover from 2 have "i - 4096 < 4096" by linarith
    ultimately show ?thesis
      using fill_table_untouched [of "update_chunk_locations chunk_map" "i - 4096" g
          "replicate 4096 0"] 2 lens
      by (simp add: nth_append)
  next
    case 3
    from 3 assms(2) lens have j: "i - 8192 < length ?P" by simp
    have "\<forall>(k, c)\<in>set (update_chunk_locations_from 2 chunk_map).
           \<not> (nat ((location c - 2) * 4096) \<le> i - 8192 \<and>
              i - 8192 < nat ((location c - 2) * 4096) + length (chunk_data c))"
    proof (clarify)
      fix k c
      assume m: "(k, c) \<in> set (update_chunk_locations_from 2 chunk_map)"
        and lo: "nat ((location c - 2) * 4096) \<le> i - 8192"
        and hi: "i - 8192 < nat ((location c - 2) * 4096) + length (chunk_data c)"
      from update_from_location_ge [OF s0 m] have ge: "2 \<le> location c" .
      then have eq: "nat (location c * 4096) = 8192 + nat ((location c - 2) * 4096)" by simp
      from m assms(3) have "\<not> (nat (location c * 4096) \<le> i \<and>
              i < nat (location c * 4096) + length (chunk_data c))"
        unfolding update_chunk_locations_def by blast
      with lo hi 3 show False unfolding eq by linarith
    qed
    from packed_zero [OF writable_lengths [OF assms(1)] j this]
    have z: "?P ! (i - 8192) = 0" .
    from 3 have a: "\<not> i < 4096" "\<not> i - 4096 < 4096" "i - 4096 - 4096 = i - 8192"
      by linarith+
    have "(?L @ ?T @ ?P) ! i = (?T @ ?P) ! (i - 4096)"
      using a(1) lens(1) by (simp only: nth_append if_False)
    also have "\<dots> = ?P ! (i - 4096 - 4096)"
      using a(2) lens(2) by (simp only: nth_append if_False)
    finally show ?thesis by (simp only: a(3) z)
  qed
qed

lemma read_file_writable:
  assumes "read_file bytes_data = Inr chunk_map"
  shows "writable chunk_map"
proof -
  let ?L = "take 4096 bytes_data"
  let ?T = "take 4096 (drop 4096 bytes_data)"
  let ?D = "drop 8192 bytes_data"
  have d: "distinct (map fst chunk_map)"
  proof (cases "8192 \<le> length bytes_data")
    case True
    from read_file_long [OF True] assms
    have "chunk_map = foldl (scan_step ?L ?T ?D) [] (range_step4 4096)" by simp
    then show ?thesis by (simp add: foldl_scan_distinct)
  next
    case False
    then consider "bytes_data = []" | "0 < length bytes_data" "length bytes_data < 8192"
      by (cases bytes_data) auto
    then show ?thesis
    proof cases
      case 1
      with assms show ?thesis by (simp add: read_file_def range_step4_def)
    next
      case 2
      with assms read_file_short [of bytes_data] show ?thesis by simp
    qed
  qed
  have "\<forall>(pos, chunk)\<in>set chunk_map.
         slot_key pos \<and> 1 \<le> size_c chunk \<and> size_c chunk \<le> 255 \<and>
         int (length (chunk_data chunk)) \<le> size_c chunk * 4096"
  proof (clarify)
    fix pos chunk assume m: "(pos, chunk) \<in> set chunk_map"
    from read_file_member [OF assms m]
    have k: "pos mod 4 = 0" "pos < 4096" and nz: "entry_size ?L pos \<noteq> 0"
      and c: "chunk = entry_chunk ?L ?T ?D pos" by simp_all
    have sz: "size_c chunk = entry_size ?L pos" by (simp add: c entry_chunk_def)
    from entry_chunk_length [of ?L ?T ?D pos] entry_size_bounds [of ?L pos] nz k c sz
    show "slot_key pos \<and> 1 \<le> size_c chunk \<and> size_c chunk \<le> 255 \<and>
         int (length (chunk_data chunk)) \<le> size_c chunk * 4096"
      by (simp add: slot_key_def)
  qed
  with d show ?thesis by (simp add: writable_def)
qed

lemma merge_writable:
  assumes "writable base" and "writable incoming"
  shows "writable (merge base incoming rule)"
proof -
  from assms have db: "distinct (map fst base)" and di: "distinct (map fst incoming)"
    by (simp_all add: writable_def)
  have "distinct (map fst (merge base incoming rule))"
    using db di by (auto simp: merge_keys [OF di])
  moreover have "\<forall>(pos, chunk)\<in>set (merge base incoming rule).
         slot_key pos \<and> 1 \<le> size_c chunk \<and> size_c chunk \<le> 255 \<and>
         int (length (chunk_data chunk)) \<le> size_c chunk * 4096"
    using set_merge [of base incoming rule] assms unfolding writable_def by blast
  ultimately show ?thesis by (simp add: writable_def)
qed

section \<open>Facts about reading back a written file\<close>

lemma valid_writable: "valid_container chunk_map \<Longrightarrow> writable chunk_map"
  unfolding valid_container_def writable_def payload_fits_def by fastforce

lemma update_from_member:
  "(k, c) \<in> set (update_chunk_locations_from a chunk_map) \<Longrightarrow>
   \<exists>c0. (k, c0) \<in> set chunk_map \<and> c = c0\<lparr>location := location c\<rparr>"
proof (induction chunk_map arbitrary: a)
  case Nil
  then show ?case by simp
next
  case (Cons e chunk_map)
  obtain pos chunk where e: "e = (pos, chunk)" by (cases e)
  from Cons.prems e
  consider "(k, c) = (pos, chunk\<lparr>location := a\<rparr>)"
    | "(k, c) \<in> set (update_chunk_locations_from (a + size_c chunk) chunk_map)"
    by auto
  then show ?case
  proof cases
    case 1
    then show ?thesis using e by auto
  next
    case 2
    from Cons.IH [OF 2] show ?thesis by auto
  qed
qed

lemma update_from_end_le:
  "\<forall>(k, c)\<in>set chunk_map. 0 \<le> size_c c \<Longrightarrow>
   (k, c) \<in> set (update_chunk_locations_from a chunk_map) \<Longrightarrow>
   location c + size_c c \<le> a + total_sectors chunk_map"
proof (induction chunk_map arbitrary: a)
  case Nil
  then show ?case by simp
next
  case (Cons e chunk_map)
  obtain pos chunk where e: "e = (pos, chunk)" by (cases e)
  from Cons.prems(1) e have sz: "0 \<le> size_c chunk"
    and rest: "\<forall>(k, c)\<in>set chunk_map. 0 \<le> size_c c" by simp_all
  have tot: "total_sectors (e # chunk_map) = size_c chunk + total_sectors chunk_map"
    by (simp add: e total_sectors_def)
  have tot0: "0 \<le> total_sectors chunk_map"
    unfolding total_sectors_def using rest by (intro sum_list_nonneg) auto
  from Cons.prems(2) e
  consider "c = chunk\<lparr>location := a\<rparr>"
    | "(k, c) \<in> set (update_chunk_locations_from (a + size_c chunk) chunk_map)" by auto
  then show ?case
  proof cases
    case 1
    then show ?thesis using tot tot0 by simp
  next
    case 2
    from Cons.IH [OF rest 2] tot show ?thesis by simp
  qed
qed

lemma total_sectors_le:
  "\<forall>(k, c)\<in>set chunk_map. size_c c \<le> 255 \<Longrightarrow>
   total_sectors chunk_map \<le> 255 * int (length chunk_map)"
proof (induction chunk_map)
  case Nil
  then show ?case by (simp add: total_sectors_def)
next
  case (Cons e chunk_map)
  then show ?case by (cases e) (auto simp: total_sectors_def)
qed

lemma slot_keys_length:
  assumes "distinct (map fst chunk_map)" and "\<forall>(k, c)\<in>set chunk_map. slot_key k"
  shows "length chunk_map \<le> 1024"
proof -
  have "set (map fst chunk_map) \<subseteq> (\<lambda>k. 4 * k) ` {..<1024}"
  proof
    fix k assume "k \<in> set (map fst chunk_map)"
    then obtain c where "(k, c) \<in> set chunk_map" by auto
    with assms(2) have "k mod 4 = 0" "k < 4096" by (auto simp: slot_key_def)
    then have "k = 4 * (k div 4)" "k div 4 < 1024" by presburger+
    then show "k \<in> (\<lambda>k. 4 * k) ` {..<1024}" by blast
  qed
  then have "card (set (map fst chunk_map)) \<le> card ((\<lambda>k :: nat. 4 * k) ` {..<1024})"
    by (intro card_mono) simp_all
  also have "\<dots> \<le> card {..<1024 :: nat}" by (rule card_image_le) simp
  finally show ?thesis using distinct_card [OF assms(1)] by simp
qed

lemma compacted_location_bounds:
  assumes "writable chunk_map" and "(k, c) \<in> set (update_chunk_locations chunk_map)"
  shows "2 \<le> location c \<and> location c < 2 ^ 24"
proof -
  from assms(1) have s0: "\<forall>(k, c)\<in>set chunk_map. 0 \<le> size_c c"
    and s255: "\<forall>(k, c)\<in>set chunk_map. size_c c \<le> 255"
    and keys: "\<forall>(k, c)\<in>set chunk_map. slot_key k" and d: "distinct (map fst chunk_map)"
    unfolding writable_def by fastforce+
  from assms(2) have m: "(k, c) \<in> set (update_chunk_locations_from 2 chunk_map)"
    by (simp add: update_chunk_locations_def)
  from update_from_member [OF m] obtain c0 where "(k, c0) \<in> set chunk_map"
    and "c = c0\<lparr>location := location c\<rparr>" by blast
  then have "size_c c = size_c c0" by (metis Chunk.select_convs(3) Chunk.surjective Chunk.update_convs(2))
  with \<open>(k, c0) \<in> set chunk_map\<close> assms(1) have "1 \<le> size_c c"
    unfolding writable_def by fastforce
  moreover from update_from_end_le [OF s0 m] have "location c + size_c c \<le> 2 + total_sectors chunk_map" .
  moreover from total_sectors_le [OF s255] slot_keys_length [OF d keys]
  have "total_sectors chunk_map \<le> 255 * 1024" by linarith
  moreover from update_from_location_ge [OF s0 m] have "2 \<le> location c" .
  ultimately show ?thesis by simp
qed

lemma compacted_keys:
  assumes "writable chunk_map"
  shows "distinct (map fst (update_chunk_locations chunk_map)) \<and>
         (\<forall>(p, c)\<in>set (update_chunk_locations chunk_map). p mod 4 = 0 \<and> p < 4096)"
proof -
  have k: "map fst (update_chunk_locations chunk_map) = map fst chunk_map"
    by (simp add: update_chunk_locations_def update_from_keys)
  have "\<forall>(p, c)\<in>set (update_chunk_locations chunk_map). p mod 4 = 0 \<and> p < 4096"
  proof (clarify)
    fix p c assume "(p, c) \<in> set (update_chunk_locations chunk_map)"
    then have "p \<in> set (map fst (update_chunk_locations chunk_map))" by (simp add: rev_image_eqI)
    then have "p \<in> set (map fst chunk_map)" by (simp only: k)
    then obtain c0 where "(p, c0) \<in> set chunk_map" by auto
    from writable_sizes [OF assms this] show "p mod 4 = 0 \<and> p < 4096" by (simp add: slot_key_def)
  qed
  moreover from assms have "distinct (map fst chunk_map)" by (simp add: writable_def)
  ultimately show ?thesis by (simp only: k)
qed

lemma table_entry_bytes:
  assumes "writable chunk_map" and "(k, c) \<in> set (update_chunk_locations chunk_map)"
    and "j < 4"
  shows "fill_table f (update_chunk_locations chunk_map) (replicate 4096 0) ! (k + j) = f c ! j"
proof -
  from compacted_keys [OF assms(1)] assms(2)
  have d: "distinct (map fst (update_chunk_locations chunk_map))"
    and al: "\<forall>(p, c)\<in>set (update_chunk_locations chunk_map). p mod 4 = 0"
    and k: "k mod 4 = 0" "k < 4096" by fastforce+
  from k have "k + 3 < length (replicate 4096 (0 :: byte))" by simp presburger
  from fill_table_entry [OF d al assms(2) this assms(3)] show ?thesis .
qed

lemma header_entry_read_back:
  assumes "writable chunk_map" and "(k, c) \<in> set (update_chunk_locations chunk_map)"
  shows "entry_size (fill_table location_bytes (update_chunk_locations chunk_map)
                       (replicate 4096 0)) k = take_bit 8 (size_c c)"
    and "entry_location (fill_table location_bytes (update_chunk_locations chunk_map)
                       (replicate 4096 0)) k = take_bit 24 (location c)"
    and "entry_timestamp (fill_table timestamp_bytes (update_chunk_locations chunk_map)
                       (replicate 4096 0)) k = take_bit 32 (timestamp c)"
proof -
  let ?L = "fill_table location_bytes (update_chunk_locations chunk_map) (replicate 4096 0)"
  let ?T = "fill_table timestamp_bytes (update_chunk_locations chunk_map) (replicate 4096 0)"
  have l0: "?L ! k = location_bytes c ! 0"
    using table_entry_bytes [OF assms, of 0 location_bytes] by simp
  have l1: "?L ! (k + 1) = location_bytes c ! 1"
    using table_entry_bytes [OF assms, of 1 location_bytes] by simp
  have l2: "?L ! (k + 2) = location_bytes c ! 2"
    using table_entry_bytes [OF assms, of 2 location_bytes] by simp
  have l3: "?L ! (k + 3) = location_bytes c ! 3"
    using table_entry_bytes [OF assms, of 3 location_bytes] by simp
  have t0: "?T ! k = timestamp_bytes c ! 0"
    using table_entry_bytes [OF assms, of 0 timestamp_bytes] by simp
  have t1: "?T ! (k + 1) = timestamp_bytes c ! 1"
    using table_entry_bytes [OF assms, of 1 timestamp_bytes] by simp
  have t2: "?T ! (k + 2) = timestamp_bytes c ! 2"
    using table_entry_bytes [OF assms, of 2 timestamp_bytes] by simp
  have t3: "?T ! (k + 3) = timestamp_bytes c ! 3"
    using table_entry_bytes [OF assms, of 3 timestamp_bytes] by simp
  show "entry_size ?L k = take_bit 8 (size_c c)"
    unfolding entry_size_def l3 by (simp add: location_bytes_def uint_byte_of_int)
  show "entry_location ?L k = take_bit 24 (location c)"
    unfolding entry_location_def l0 l1 l2
    by (simp add: location_bytes_def uint_byte_of_int be3)
  show "entry_timestamp ?T k = take_bit 32 (timestamp c)"
    unfolding entry_timestamp_def t0 t1 t2 t3
    by (simp add: timestamp_bytes_def uint_byte_of_int be4)
qed

lemma header_entry_absent:
  assumes "writable chunk_map" and "k mod 4 = 0" and "k < 4096"
    and "k \<notin> set (map fst (update_chunk_locations chunk_map))"
  shows "entry_size (fill_table f (update_chunk_locations chunk_map) (replicate 4096 0)) k = 0"
proof -
  have "\<forall>(p, c)\<in>set (update_chunk_locations chunk_map). \<not> (p \<le> k + 3 \<and> k + 3 < p + 4)"
  proof (clarify)
    fix p c assume m: "(p, c) \<in> set (update_chunk_locations chunk_map)"
      and b: "p \<le> k + 3" "k + 3 < p + 4"
    from compacted_keys [OF assms(1)] m have "p mod 4 = 0" by fastforce
    with assms(2) b have "p = k" by presburger
    with m assms(4) show False by (simp add: rev_image_eqI)
  qed
  from fill_table_untouched [OF this, of f "replicate 4096 0"]
  have "fill_table f (update_chunk_locations chunk_map) (replicate 4096 0) ! (k + 3) =
        replicate 4096 0 ! (k + 3)" .
  moreover from assms(2,3) have "k + 3 < 4096" by presburger
  ultimately show ?thesis by (simp add: entry_size_def)
qed

lemma update_from_triples:
  "map (\<lambda>(pos, c). (pos, timestamp c, chunk_data c)) (update_chunk_locations_from a chunk_map) =
   map (\<lambda>(pos, c). (pos, timestamp c, chunk_data c)) chunk_map"
  by (induction chunk_map arbitrary: a) auto

lemma padded_payload_fits: "payload_fits c \<Longrightarrow> padded_payload c = chunk_data c"
  by (simp add: padded_payload_def payload_fits_def)

lemma compacted_chunk_valid:
  assumes "valid_container chunk_map" and "(k, c) \<in> set (update_chunk_locations chunk_map)"
  shows "1 \<le> size_c c \<and> size_c c \<le> 255 \<and> payload_fits c \<and>
         0 \<le> timestamp c \<and> timestamp c < 2 ^ 32"
proof -
  from assms(2) have "(k, c) \<in> set (update_chunk_locations_from 2 chunk_map)"
    by (simp add: update_chunk_locations_def)
  from update_from_fields [OF this] obtain c0 where m: "(k, c0) \<in> set chunk_map"
    and f: "timestamp c = timestamp c0" "size_c c = size_c c0" "chunk_data c = chunk_data c0"
    by blast
  from assms(1) m have "1 \<le> size_c c0 \<and> size_c c0 \<le> 255 \<and> payload_fits c0 \<and>
         0 \<le> timestamp c0 \<and> timestamp c0 < 2 ^ 32"
    unfolding valid_container_def by fastforce
  with f show ?thesis by (simp add: payload_fits_def)
qed

lemma decoded_entry_is_chunk:
  assumes "valid_container chunk_map" and "(k, c) \<in> set (update_chunk_locations chunk_map)"
  shows "entry_size (fill_table location_bytes (update_chunk_locations chunk_map)
                       (replicate 4096 0)) k \<noteq> 0 \<and>
         entry_chunk (fill_table location_bytes (update_chunk_locations chunk_map)
                        (replicate 4096 0))
           (fill_table timestamp_bytes (update_chunk_locations chunk_map) (replicate 4096 0))
           (concat (map (padded_payload \<circ> snd) chunk_map)) k = c"
proof -
  let ?L = "fill_table location_bytes (update_chunk_locations chunk_map) (replicate 4096 0)"
  let ?T = "fill_table timestamp_bytes (update_chunk_locations chunk_map) (replicate 4096 0)"
  let ?P = "concat (map (padded_payload \<circ> snd) chunk_map)"
  have w: "writable chunk_map" by (rule valid_writable [OF assms(1)])
  from compacted_chunk_valid [OF assms] have sz: "1 \<le> size_c c" "size_c c \<le> 255"
    and fits: "payload_fits c" and ts: "0 \<le> timestamp c" "timestamp c < 2 ^ 32" by simp_all
  from compacted_location_bounds [OF w assms(2)]
  have loc: "2 \<le> location c" "location c < 2 ^ 24" by simp_all
  have es: "entry_size ?L k = size_c c"
    using header_entry_read_back(1) [OF w assms(2)] sz by (simp add: take_bit_int_eq_self)
  have el: "entry_location ?L k = location c"
    using header_entry_read_back(2) [OF w assms(2)] loc by (simp add: take_bit_int_eq_self)
  have et: "entry_timestamp ?T k = timestamp c"
    using header_entry_read_back(3) [OF w assms(2)] ts by (simp add: take_bit_int_eq_self)
  from assms(2) have m: "(k, c) \<in> set (update_chunk_locations_from 2 chunk_map)"
    by (simp add: update_chunk_locations_def)
  from packed_payload_at [OF writable_lengths [OF w] m] obtain rest where
    r: "drop (nat ((location c - 2) * 4096)) ?P = padded_payload c @ rest" by blast
  have lp: "length (chunk_data c) = nat (size_c c * 4096)"
    using fits by (simp add: payload_fits_def)
  have a: "0 \<le> (location c - 2) * 4096" using loc by simp
  have ab: "(location c - 2) * 4096 \<le> (location c + size_c c - 2) * 4096" using sz by simp
  have d: "(location c + size_c c - 2) * 4096 - (location c - 2) * 4096 = size_c c * 4096"
    by (simp add: algebra_simps)
  have "py_slice ?P ((location c - 2) * 4096) ((location c + size_c c - 2) * 4096) =
        take (nat (size_c c * 4096)) (drop (nat ((location c - 2) * 4096)) ?P)"
    by (simp only: py_slice_nonneg [OF a ab] d)
  also have "\<dots> = chunk_data c"
    unfolding r padded_payload_fits [OF fits] using lp by simp
  finally have data: "py_slice ?P ((location c - 2) * 4096)
                        ((location c + size_c c - 2) * 4096) = chunk_data c" .
  have "entry_chunk ?L ?T ?P k = c"
    unfolding entry_chunk_def es el et data by simp
  with es sz show ?thesis by simp
qed

lemma roundtrip_decoded:
  assumes "valid_container chunk_map"
  shows "\<exists>out decoded.
           write chunk_map = Inr (update_chunk_locations chunk_map, out) \<and>
           read_file out = Inr decoded \<and>
           set decoded = set (update_chunk_locations chunk_map)"
proof -
  let ?cm = "update_chunk_locations chunk_map"
  let ?L = "fill_table location_bytes ?cm (replicate 4096 0)"
  let ?T = "fill_table timestamp_bytes ?cm (replicate 4096 0)"
  let ?P = "concat (map (padded_payload \<circ> snd) chunk_map)"
  let ?out = "?L @ ?T @ ?P"
  let ?dec = "foldl (scan_step ?L ?T ?P) [] (range_step4 4096)"
  have w: "writable chunk_map" by (rule valid_writable [OF assms])
  have lens: "length ?L = 4096" "length ?T = 4096" by (simp_all add: length_fill_table)
  have wr: "write chunk_map = Inr (?cm, ?out)" by (rule write_layout [OF w])
  have parts: "take 4096 ?out = ?L" "take 4096 (drop 4096 ?out) = ?T" "drop 8192 ?out = ?P"
    using lens by simp_all
  have "8192 \<le> length ?out" using lens by simp
  from read_file_long [OF this] have rd: "read_file ?out = Inr ?dec"
    by (simp only: parts)
  from compacted_keys [OF w] have dcm: "distinct (map fst ?cm)"
    and keys: "\<forall>(p, c)\<in>set ?cm. p mod 4 = 0 \<and> p < 4096" by simp_all
  have ddec: "distinct (map fst ?dec)" by (rule foldl_scan_distinct) simp
  have "map_of ?dec k = map_of ?cm k" for k
  proof (cases "k \<in> set (map fst ?cm)")
    case True
    then obtain c where m: "(k, c) \<in> set ?cm" by auto
    with dcm have look: "map_of ?cm k = Some c" by simp
    from keys m have "k mod 4 = 0" "k < 4096" by fastforce+
    then have "k \<in> set (range_step4 4096)" by (rule range_step4_mem)
    with decoded_entry_is_chunk [OF assms m] look show ?thesis
      by (simp add: foldl_scan_lookup)
  next
    case False
    then have none: "map_of ?cm k = None" by (simp add: map_of_eq_None_iff)
    show ?thesis
    proof (cases "k \<in> set (range_step4 4096)")
      case True
      then have "k mod 4 = 0" "k < 4096" using range_step4_bound [of k 4096] by simp_all
      from header_entry_absent [OF w this False, of location_bytes] none show ?thesis
        by (simp add: foldl_scan_lookup)
    next
      case False
      with none show ?thesis by (simp add: foldl_scan_lookup)
    qed
  qed
  then have "map_of ?dec = map_of ?cm" by (rule ext)
  with ddec dcm have "set ?dec = set ?cm" by (simp add: map_of_inject_set)
  with wr rd show ?thesis by blast
qed

section \<open>The claim about the round trip\<close>

text \<open>
  C3. The chunk map of the code has, for slot \<open>k\<close>, the key \<open>4 * k\<close>: the offset of the
  entry in the header tables. For every container with valid slots (distinct slot keys,
  sizes from 1 to 255, payloads of exactly \<open>size * 4096\<close> bytes, unsigned 32-bit
  timestamps) \<open>write\<close> succeeds, \<open>read_file\<close> succeeds on the bytes written, and the
  chunk map read back has the same keys, each with the timestamp and the payload it had:
  the triples of key, timestamp and payload are the same, and so are the triples of slot
  index \<open>pos div 4\<close>, timestamp and payload. The locations are those of the compaction.
\<close>

theorem write_read_roundtrip:
  assumes "valid_container chunk_map"
  shows "\<exists>out decoded.
           write chunk_map = Inr (update_chunk_locations chunk_map, out) \<and>
           read_file out = Inr decoded \<and>
           (\<lambda>(pos, c). (pos, timestamp c, chunk_data c)) ` set decoded =
           (\<lambda>(pos, c). (pos, timestamp c, chunk_data c)) ` set chunk_map \<and>
           (\<lambda>(pos, c). (pos div 4, timestamp c, chunk_data c)) ` set decoded =
           (\<lambda>(pos, c). (pos div 4, timestamp c, chunk_data c)) ` set chunk_map"
proof -
  from roundtrip_decoded [OF assms] obtain out decoded where
    wr: "write chunk_map = Inr (update_chunk_locations chunk_map, out)"
    and rd: "read_file out = Inr decoded"
    and s: "set decoded = set (update_chunk_locations chunk_map)" by blast
  have "(\<lambda>(pos, c). (pos, timestamp c, chunk_data c)) ` set (update_chunk_locations chunk_map) =
        set (map (\<lambda>(pos, c). (pos, timestamp c, chunk_data c))
               (update_chunk_locations_from 2 chunk_map))"
    by (simp add: update_chunk_locations_def)
  also have "\<dots> = (\<lambda>(pos, c). (pos, timestamp c, chunk_data c)) ` set chunk_map"
    by (simp only: update_from_triples) simp
  finally have t: "(\<lambda>(pos, c). (pos, timestamp c, chunk_data c)) ` set decoded =
           (\<lambda>(pos, c). (pos, timestamp c, chunk_data c)) ` set chunk_map"
    by (simp only: s)
  have img: "(\<lambda>(pos, c). (pos div 4, timestamp c, chunk_data c)) ` X =
        (\<lambda>(pos, t, d). (pos div 4, t, d)) ` (\<lambda>(pos :: nat, c). (pos, timestamp c, chunk_data c)) ` X"
    for X
    by (auto simp: image_iff split: prod.splits)
  have "(\<lambda>(pos, c). (pos div 4, timestamp c, chunk_data c)) ` set decoded =
        (\<lambda>(pos, t, d). (pos div 4, t, d)) `
          (\<lambda>(pos :: nat, c). (pos, timestamp c, chunk_data c)) ` set decoded"
    by (rule img)
  also have "\<dots> = (\<lambda>(pos, t, d). (pos div 4, t, d)) `
          (\<lambda>(pos :: nat, c). (pos, timestamp c, chunk_data c)) ` set chunk_map"
    by (simp only: t)
  also have "\<dots> = (\<lambda>(pos, c). (pos div 4, timestamp c, chunk_data c)) ` set chunk_map"
    by (rule img [symmetric])
  finally have "(\<lambda>(pos, c). (pos div 4, timestamp c, chunk_data c)) ` set decoded =
           (\<lambda>(pos, c). (pos div 4, timestamp c, chunk_data c)) ` set chunk_map" .
  with wr rd t show ?thesis by blast
qed

theorem write_read_roundtrip_witness:
  "valid_container
     [(20, \<lparr>timestamp = 200, location = 9, size_c = 2, chunk_data = replicate 8192 2\<rparr>),
      (36, \<lparr>timestamp = 50, location = 2, size_c = 1, chunk_data = replicate 4096 3\<rparr>)] \<and>
   (\<exists>out decoded.
      write [(20, \<lparr>timestamp = 200, location = 9, size_c = 2, chunk_data = replicate 8192 2\<rparr>),
             (36, \<lparr>timestamp = 50, location = 2, size_c = 1, chunk_data = replicate 4096 3\<rparr>)] =
        Inr (update_chunk_locations
               [(20, \<lparr>timestamp = 200, location = 9, size_c = 2, chunk_data = replicate 8192 2\<rparr>),
                (36, \<lparr>timestamp = 50, location = 2, size_c = 1, chunk_data = replicate 4096 3\<rparr>)],
             out) \<and>
      read_file out = Inr decoded \<and>
      (\<lambda>(pos, c). (pos, timestamp c, chunk_data c)) ` set decoded =
      (\<lambda>(pos, c). (pos, timestamp c, chunk_data c)) `
        set [(20, \<lparr>timestamp = 200, location = 9, size_c = 2, chunk_data = replicate 8192 2\<rparr>),
             (36, \<lparr>timestamp = 50, location = 2, size_c = 1, chunk_data = replicate 4096 3\<rparr>)] \<and>
      (\<lambda>(pos, c). (pos div 4, timestamp c, chunk_data c)) ` set decoded =
      (\<lambda>(pos, c). (pos div 4, timestamp c, chunk_data c)) `
        set [(20, \<lparr>timestamp = 200, location = 9, size_c = 2, chunk_data = replicate 8192 2\<rparr>),
             (36, \<lparr>timestamp = 50, location = 2, size_c = 1, chunk_data = replicate 4096 3\<rparr>)])"
proof -
  have v: "valid_container
     [(20, \<lparr>timestamp = 200, location = 9, size_c = 2, chunk_data = replicate 8192 2\<rparr>),
      (36, \<lparr>timestamp = 50, location = 2, size_c = 1, chunk_data = replicate 4096 3\<rparr>)]"
    by (simp add: valid_container_def slot_key_def payload_fits_def)
  show ?thesis by (rule conjI [OF v write_read_roundtrip [OF v]])
qed

section \<open>Facts about the header of the written file\<close>

lemma take4_drop:
  "pos + 4 \<le> length xs \<Longrightarrow>
   take 4 (drop pos xs) = [xs ! pos, xs ! (pos + 1), xs ! (pos + 2), xs ! (pos + 3)]"
proof -
  assume a: "pos + 4 \<le> length xs"
  have "length (take 4 (drop pos xs)) = 4" using a by simp
  moreover have "take 4 (drop pos xs) ! j = xs ! (pos + j)" if "j < 4" for j
    using a that by simp
  ultimately show ?thesis
    by (intro nth_equalityI) (auto simp: nth_Cons' less_Suc_eq numeral_eq_Suc)
qed

lemma layout_header:
  assumes "writable chunk_map" and "(pos, c) \<in> set (update_chunk_locations chunk_map)"
  shows "take 4 (drop pos
           (fill_table location_bytes (update_chunk_locations chunk_map) (replicate 4096 0) @
            fill_table timestamp_bytes (update_chunk_locations chunk_map) (replicate 4096 0) @ P)) =
         location_bytes c"
    and "take 4 (drop (4096 + pos)
           (fill_table location_bytes (update_chunk_locations chunk_map) (replicate 4096 0) @
            fill_table timestamp_bytes (update_chunk_locations chunk_map) (replicate 4096 0) @ P)) =
         timestamp_bytes c"
proof -
  let ?cm = "update_chunk_locations chunk_map"
  let ?L = "fill_table location_bytes ?cm (replicate 4096 0)"
  let ?T = "fill_table timestamp_bytes ?cm (replicate 4096 0)"
  have lens: "length ?L = 4096" "length ?T = 4096" by (simp_all add: length_fill_table)
  from compacted_keys [OF assms(1)] assms(2) have "pos mod 4 = 0" "pos < 4096" by fastforce+
  then have p: "pos + 4 \<le> 4096" by presburger
  have "take 4 (drop pos (?L @ ?T @ P)) = take 4 (drop pos ?L)"
    using p lens by simp
  also have "\<dots> = [?L ! pos, ?L ! (pos + 1), ?L ! (pos + 2), ?L ! (pos + 3)]"
    using p lens by (intro take4_drop) simp
  also have "\<dots> = location_bytes c"
    using table_entry_bytes [OF assms, of 0 location_bytes]
      table_entry_bytes [OF assms, of 1 location_bytes]
      table_entry_bytes [OF assms, of 2 location_bytes]
      table_entry_bytes [OF assms, of 3 location_bytes]
    by (simp add: location_bytes_def)
  finally show "take 4 (drop pos (?L @ ?T @ P)) = location_bytes c" .
  have "take 4 (drop (4096 + pos) (?L @ ?T @ P)) = take 4 (drop pos ?T)"
    using p lens by simp
  also have "\<dots> = [?T ! pos, ?T ! (pos + 1), ?T ! (pos + 2), ?T ! (pos + 3)]"
    using p lens by (intro take4_drop) simp
  also have "\<dots> = timestamp_bytes c"
    using table_entry_bytes [OF assms, of 0 timestamp_bytes]
      table_entry_bytes [OF assms, of 1 timestamp_bytes]
      table_entry_bytes [OF assms, of 2 timestamp_bytes]
      table_entry_bytes [OF assms, of 3 timestamp_bytes]
    by (simp add: timestamp_bytes_def)
  finally show "take 4 (drop (4096 + pos) (?L @ ?T @ P)) = timestamp_bytes c" .
qed

lemma layout_header_decoded:
  assumes "writable chunk_map" and "(pos, c) \<in> set (update_chunk_locations chunk_map)"
  shows "entry_location
           (fill_table location_bytes (update_chunk_locations chunk_map) (replicate 4096 0) @ R)
           pos = location c \<and>
         entry_size
           (fill_table location_bytes (update_chunk_locations chunk_map) (replicate 4096 0) @ R)
           pos = size_c c"
proof -
  let ?cm = "update_chunk_locations chunk_map"
  let ?L = "fill_table location_bytes ?cm (replicate 4096 0)"
  have len: "length ?L = 4096" by (simp add: length_fill_table)
  from compacted_keys [OF assms(1)] assms(2) have "pos mod 4 = 0" "pos < 4096" by fastforce+
  then have p: "pos + 3 < 4096" by presburger
  then have n: "(?L @ R) ! pos = ?L ! pos" "(?L @ R) ! (pos + 1) = ?L ! (pos + 1)"
    "(?L @ R) ! (pos + 2) = ?L ! (pos + 2)" "(?L @ R) ! (pos + 3) = ?L ! (pos + 3)"
    using len by (simp_all add: nth_append)
  have el: "entry_location (?L @ R) pos = entry_location ?L pos"
    unfolding entry_location_def by (simp only: n)
  have es: "entry_size (?L @ R) pos = entry_size ?L pos"
    unfolding entry_size_def by (simp only: n)
  from assms(2) have "(pos, c) \<in> set (update_chunk_locations_from 2 chunk_map)"
    by (simp add: update_chunk_locations_def)
  from update_from_fields [OF this] obtain c0 where "(pos, c0) \<in> set chunk_map"
    and "size_c c = size_c c0" by blast
  with writable_sizes [OF assms(1)] have sz: "1 \<le> size_c c" "size_c c \<le> 255" by simp_all
  from compacted_location_bounds [OF assms]
  have loc: "2 \<le> location c" "location c < 2 ^ 24" by simp_all
  have "entry_location ?L pos = location c"
    using header_entry_read_back(2) [OF assms] loc by (simp add: take_bit_int_eq_self)
  moreover have "entry_size ?L pos = size_c c"
    using header_entry_read_back(1) [OF assms] sz by (simp add: take_bit_int_eq_self)
  ultimately show ?thesis by (simp only: el es)
qed

lemma write_scenario_bytes:
  assumes "length P1 = 4096" "length P2 = 8192" "length P3 = 4096"
  shows "\<exists>out. write (merge [(20, \<lparr>timestamp = 100, location = l1, size_c = 1, chunk_data = P1\<rparr>)]
                     [(20, \<lparr>timestamp = 200, location = l2, size_c = 2, chunk_data = P2\<rparr>),
                      (36, \<lparr>timestamp = 50, location = l3, size_c = 1, chunk_data = P3\<rparr>)]
                     MergeRuleNewestChunks) =
               Inr ([(20, \<lparr>timestamp = 200, location = 2, size_c = 2, chunk_data = P2\<rparr>),
                     (36, \<lparr>timestamp = 50, location = 4, size_c = 1, chunk_data = P3\<rparr>)], out) \<and>
               length out = 20480 \<and>
               take 4 (drop 20 out) = [0, 0, 2, 2] \<and> take 4 (drop 36 out) = [0, 0, 4, 1] \<and>
               take 4 (drop 4116 out) = [0, 0, 0, 200] \<and>
               take 4 (drop 4132 out) = [0, 0, 0, 50] \<and>
               take 8192 (drop 8192 out) = P2 \<and> take 4096 (drop 16384 out) = P3"
proof -
  let ?m = "[(20 :: nat, \<lparr>timestamp = 200, location = l2, size_c = 2, chunk_data = P2\<rparr>),
             (36, \<lparr>timestamp = 50, location = l3, size_c = 1, chunk_data = P3\<rparr>)]"
  let ?c5 = "\<lparr>timestamp = 200, location = 2, size_c = 2, chunk_data = P2\<rparr>"
  let ?c9 = "\<lparr>timestamp = 50, location = 4, size_c = 1, chunk_data = P3\<rparr>"
  let ?P = "concat (map (padded_payload \<circ> snd) ?m)"
  let ?out = "fill_table location_bytes (update_chunk_locations ?m) (replicate 4096 0) @
              fill_table timestamp_bytes (update_chunk_locations ?m) (replicate 4096 0) @ ?P"
  have m: "merge [(20, \<lparr>timestamp = 100, location = l1, size_c = 1, chunk_data = P1\<rparr>)] ?m
             MergeRuleNewestChunks = ?m"
    by (simp add: dict_contains_def)
  have w: "writable ?m" using assms by (simp add: writable_def slot_key_def)
  have u: "update_chunk_locations ?m = [(20, ?c5), (36, ?c9)]"
    by (simp add: update_chunk_locations_def)
  have m5: "(20, ?c5) \<in> set (update_chunk_locations ?m)"
    and m9: "(36, ?c9) \<in> set (update_chunk_locations ?m)" by (simp_all add: u)
  have wr: "write ?m = Inr ([(20, ?c5), (36, ?c9)], ?out)"
    using write_layout [OF w] by (simp only: u)
  have P: "?P = P2 @ P3" using assms by (simp add: padded_payload_def)
  have len: "length ?out = 20480"
    using assms by (simp add: length_fill_table padded_payload_def)
  have l5: "take 4 (drop 20 ?out) = [0, 0, 2, 2]"
    using layout_header(1) [OF w m5, of ?P] by (simp add: location_bytes_def)
  have l9: "take 4 (drop 36 ?out) = [0, 0, 4, 1]"
    using layout_header(1) [OF w m9, of ?P] by (simp add: location_bytes_def)
  have t5: "take 4 (drop 4116 ?out) = [0, 0, 0, 200]"
    using layout_header(2) [OF w m5, of ?P] by (simp add: timestamp_bytes_def)
  have t9: "take 4 (drop 4132 ?out) = [0, 0, 0, 50]"
    using layout_header(2) [OF w m9, of ?P] by (simp add: timestamp_bytes_def)
  have p5: "take 8192 (drop 8192 ?out) = P2"
    unfolding P using assms by (simp add: length_fill_table)
  have p9: "take 4096 (drop 16384 ?out) = P3"
    unfolding P using assms by (simp add: length_fill_table)
  from wr len l5 l9 t5 t9 p5 p9 show ?thesis
    unfolding m by (intro exI [of _ ?out] conjI)
qed

section \<open>The claim about the written file\<close>

text \<open>
  C6. \<open>read_file\<close> builds chunk maps with slot keys, sizes from 1 to 255 and payloads of
  at most \<open>size * 4096\<close> bytes, and \<open>merge\<close> keeps them so (second and third conjunct).
  For every such chunk map \<open>write\<close> succeeds and the buffer it writes has
  \<open>8192 + maxExtent\<close> bytes, where \<open>maxExtent\<close> is the greatest
  \<open>(location + size - 2) * 4096\<close> over the chunks after the compaction, and 0 when there
  is none. In that buffer the four bytes at the key of a chunk are its location entry
  (the location after the compaction in three bytes, most significant first, then the
  size), which reads back as that location and that size, and the four bytes at 4096
  plus the key are its timestamp entry; the payload of every chunk stands at the byte
  \<open>location * 4096\<close>; and every byte that is neither in the location entry or the
  timestamp entry of a chunk nor in a payload is 0 (first conjunct). In the scenario
  (slot 5 is the key 20, slot 9 the key 36), whatever the payloads and the locations
  before, the merge with \<open>MergeRuleNewestChunks\<close> followed by \<open>write\<close> gives slot 5 the
  location 2 with size 2 and slot 9 the location 4 with size 1, both in the chunk map and
  in the location table of the file written, which has 20480 bytes and holds the two
  timestamps and, from the byte 8192 on, the two payloads (last conjunct).
\<close>

theorem write_output_layout:
  "(writable chunk_map \<longrightarrow>
      (\<exists>out. write chunk_map = Inr (update_chunk_locations chunk_map, out) \<and>
         int (length out) =
           8192 + Max (insert 0 ((\<lambda>(pos, c). (location c + size_c c - 2) * 4096) `
                                    set (update_chunk_locations chunk_map))) \<and>
         (\<forall>(pos, c)\<in>set (update_chunk_locations chunk_map).
            take 4 (drop pos out) = location_bytes c \<and>
            take 4 (drop (4096 + pos) out) = timestamp_bytes c \<and>
            entry_location out pos = location c \<and> entry_size out pos = size_c c) \<and>
         (\<forall>(pos, c)\<in>set (update_chunk_locations chunk_map).
            take (length (chunk_data c)) (drop (nat (location c * 4096)) out) = chunk_data c) \<and>
         (\<forall>i<length out.
            (\<forall>(pos, c)\<in>set (update_chunk_locations chunk_map).
               \<not> (pos \<le> i \<and> i < pos + 4) \<and> \<not> (4096 + pos \<le> i \<and> i < 4096 + pos + 4) \<and>
               \<not> (nat (location c * 4096) \<le> i \<and>
                  i < nat (location c * 4096) + length (chunk_data c)))
            \<longrightarrow> out ! i = 0))) \<and>
   (read_file bytes_data = Inr decoded \<longrightarrow> writable decoded) \<and>
   (writable base \<and> writable incoming \<longrightarrow> writable (merge base incoming rule)) \<and>
   (length P1 = 4096 \<and> length P2 = 8192 \<and> length P3 = 4096 \<longrightarrow>
      (\<exists>out. write (merge [(20, \<lparr>timestamp = 100, location = l1, size_c = 1, chunk_data = P1\<rparr>)]
                     [(20, \<lparr>timestamp = 200, location = l2, size_c = 2, chunk_data = P2\<rparr>),
                      (36, \<lparr>timestamp = 50, location = l3, size_c = 1, chunk_data = P3\<rparr>)]
                     MergeRuleNewestChunks) =
               Inr ([(20, \<lparr>timestamp = 200, location = 2, size_c = 2, chunk_data = P2\<rparr>),
                     (36, \<lparr>timestamp = 50, location = 4, size_c = 1, chunk_data = P3\<rparr>)], out) \<and>
               length out = 20480 \<and>
               take 4 (drop 20 out) = [0, 0, 2, 2] \<and> take 4 (drop 36 out) = [0, 0, 4, 1] \<and>
               take 4 (drop 4116 out) = [0, 0, 0, 200] \<and>
               take 4 (drop 4132 out) = [0, 0, 0, 50] \<and>
               take 8192 (drop 8192 out) = P2 \<and> take 4096 (drop 16384 out) = P3))"
proof (intro conjI impI)
  assume w: "writable chunk_map"
  let ?cm = "update_chunk_locations chunk_map"
  let ?L = "fill_table location_bytes ?cm (replicate 4096 0)"
  let ?T = "fill_table timestamp_bytes ?cm (replicate 4096 0)"
  let ?P = "concat (map (padded_payload \<circ> snd) chunk_map)"
  let ?out = "?L @ ?T @ ?P"
  have lens: "length ?L = 4096" "length ?T = 4096" by (simp_all add: length_fill_table)
  have 1: "write chunk_map = Inr (?cm, ?out)" by (rule write_layout [OF w])
  have 2: "int (length ?out) =
           8192 + Max (insert 0 ((\<lambda>(pos, c). (location c + size_c c - 2) * 4096) ` set ?cm))"
    by (rule layout_length [OF w])
  have 3: "\<forall>(pos, c)\<in>set ?cm.
            take (length (chunk_data c)) (drop (nat (location c * 4096)) ?out) = chunk_data c"
    using layout_payload [OF w _ lens] by blast
  have 4: "\<forall>i<length ?out.
            (\<forall>(pos, c)\<in>set ?cm.
               \<not> (pos \<le> i \<and> i < pos + 4) \<and> \<not> (4096 + pos \<le> i \<and> i < 4096 + pos + 4) \<and>
               \<not> (nat (location c * 4096) \<le> i \<and>
                  i < nat (location c * 4096) + length (chunk_data c)))
            \<longrightarrow> ?out ! i = 0"
    using layout_zero [OF w, of _ location_bytes timestamp_bytes] by blast
  have 5: "\<forall>(pos, c)\<in>set ?cm.
            take 4 (drop pos ?out) = location_bytes c \<and>
            take 4 (drop (4096 + pos) ?out) = timestamp_bytes c \<and>
            entry_location ?out pos = location c \<and> entry_size ?out pos = size_c c"
  proof (clarify)
    fix pos c assume m: "(pos, c) \<in> set ?cm"
    from layout_header [OF w m, of ?P] layout_header_decoded [OF w m, of "?T @ ?P"]
    show "take 4 (drop pos ?out) = location_bytes c \<and>
            take 4 (drop (4096 + pos) ?out) = timestamp_bytes c \<and>
            entry_location ?out pos = location c \<and> entry_size ?out pos = size_c c"
      by (intro conjI) simp_all
  qed
  from 1 2 5 3 4
  show "\<exists>out. write chunk_map = Inr (?cm, out) \<and>
         int (length out) =
           8192 + Max (insert 0 ((\<lambda>(pos, c). (location c + size_c c - 2) * 4096) ` set ?cm)) \<and>
         (\<forall>(pos, c)\<in>set ?cm.
            take 4 (drop pos out) = location_bytes c \<and>
            take 4 (drop (4096 + pos) out) = timestamp_bytes c \<and>
            entry_location out pos = location c \<and> entry_size out pos = size_c c) \<and>
         (\<forall>(pos, c)\<in>set ?cm.
            take (length (chunk_data c)) (drop (nat (location c * 4096)) out) = chunk_data c) \<and>
         (\<forall>i<length out.
            (\<forall>(pos, c)\<in>set ?cm.
               \<not> (pos \<le> i \<and> i < pos + 4) \<and> \<not> (4096 + pos \<le> i \<and> i < 4096 + pos + 4) \<and>
               \<not> (nat (location c * 4096) \<le> i \<and>
                  i < nat (location c * 4096) + length (chunk_data c)))
            \<longrightarrow> out ! i = 0)"
    by (intro exI [of _ ?out] conjI)
next
  assume "read_file bytes_data = Inr decoded"
  then show "writable decoded" by (rule read_file_writable)
next
  assume "writable base \<and> writable incoming"
  then show "writable (merge base incoming rule)" by (simp add: merge_writable)
next
  assume "length P1 = 4096 \<and> length P2 = 8192 \<and> length P3 = 4096"
  then have "length P1 = 4096" "length P2 = 8192" "length P3 = 4096" by simp_all
  then show "\<exists>out. write (merge [(20, \<lparr>timestamp = 100, location = l1, size_c = 1, chunk_data = P1\<rparr>)]
                     [(20, \<lparr>timestamp = 200, location = l2, size_c = 2, chunk_data = P2\<rparr>),
                      (36, \<lparr>timestamp = 50, location = l3, size_c = 1, chunk_data = P3\<rparr>)]
                     MergeRuleNewestChunks) =
               Inr ([(20, \<lparr>timestamp = 200, location = 2, size_c = 2, chunk_data = P2\<rparr>),
                     (36, \<lparr>timestamp = 50, location = 4, size_c = 1, chunk_data = P3\<rparr>)], out) \<and>
               length out = 20480 \<and>
               take 4 (drop 20 out) = [0, 0, 2, 2] \<and> take 4 (drop 36 out) = [0, 0, 4, 1] \<and>
               take 4 (drop 4116 out) = [0, 0, 0, 200] \<and>
               take 4 (drop 4132 out) = [0, 0, 0, 50] \<and>
               take 8192 (drop 8192 out) = P2 \<and> take 4096 (drop 16384 out) = P3"
    by (rule write_scenario_bytes)
qed

theorem write_output_layout_witness:
  "writable [(20, \<lparr>timestamp = 200, location = 9, size_c = 2, chunk_data = replicate 8192 2\<rparr>),
             (36, \<lparr>timestamp = 50, location = 2, size_c = 1, chunk_data = replicate 4096 3\<rparr>)] \<and>
   (\<exists>out. write [(20, \<lparr>timestamp = 200, location = 9, size_c = 2, chunk_data = replicate 8192 2\<rparr>),
                  (36, \<lparr>timestamp = 50, location = 2, size_c = 1, chunk_data = replicate 4096 3\<rparr>)] =
           Inr ([(20, \<lparr>timestamp = 200, location = 2, size_c = 2, chunk_data = replicate 8192 2\<rparr>),
                 (36, \<lparr>timestamp = 50, location = 4, size_c = 1, chunk_data = replicate 4096 3\<rparr>)],
                out) \<and>
           int (length out) = 20480 \<and>
           take 4 (drop 20 out) = [0, 0, 2, 2] \<and> take 4 (drop 36 out) = [0, 0, 4, 1] \<and>
           entry_location out 20 = 2 \<and> entry_size out 20 = 2 \<and>
           entry_location out 36 = 4 \<and> entry_size out 36 = 1) \<and>
   (\<exists>decoded. read_file (replicate 8192 0) = Inr decoded \<and> writable decoded) \<and>
   writable (merge
      [(20, \<lparr>timestamp = 100, location = 7, size_c = 1, chunk_data = replicate 4096 1\<rparr>)]
      [(20, \<lparr>timestamp = 200, location = 9, size_c = 2, chunk_data = replicate 8192 2\<rparr>),
       (36, \<lparr>timestamp = 50, location = 2, size_c = 1, chunk_data = replicate 4096 3\<rparr>)]
      MergeRuleNewestChunks) \<and>
   length (replicate 4096 (1 :: byte)) = 4096 \<and> length (replicate 8192 (2 :: byte)) = 8192 \<and>
   length (replicate 4096 (3 :: byte)) = 4096 \<and>
   (\<exists>out. write (merge
      [(20, \<lparr>timestamp = 100, location = 7, size_c = 1, chunk_data = replicate 4096 1\<rparr>)]
      [(20, \<lparr>timestamp = 200, location = 9, size_c = 2, chunk_data = replicate 8192 2\<rparr>),
       (36, \<lparr>timestamp = 50, location = 2, size_c = 1, chunk_data = replicate 4096 3\<rparr>)]
      MergeRuleNewestChunks) =
           Inr ([(20, \<lparr>timestamp = 200, location = 2, size_c = 2, chunk_data = replicate 8192 2\<rparr>),
                 (36, \<lparr>timestamp = 50, location = 4, size_c = 1, chunk_data = replicate 4096 3\<rparr>)],
                out) \<and>
           length out = 20480 \<and>
           take 4 (drop 20 out) = [0, 0, 2, 2] \<and> take 4 (drop 36 out) = [0, 0, 4, 1] \<and>
           take 4 (drop 4116 out) = [0, 0, 0, 200] \<and>
           take 4 (drop 4132 out) = [0, 0, 0, 50] \<and>
           take 8192 (drop 8192 out) = replicate 8192 2 \<and>
           take 4096 (drop 16384 out) = replicate 4096 3)"
proof -
  let ?b = "[(20 :: nat, \<lparr>timestamp = 100, location = 7, size_c = 1,
                          chunk_data = replicate 4096 (1 :: byte)\<rparr>)]"
  let ?m = "[(20 :: nat, \<lparr>timestamp = 200, location = 9, size_c = 2,
                          chunk_data = replicate 8192 (2 :: byte)\<rparr>),
             (36, \<lparr>timestamp = 50, location = 2, size_c = 1, chunk_data = replicate 4096 3\<rparr>)]"
  let ?c5 = "\<lparr>timestamp = 200, location = 2, size_c = 2, chunk_data = replicate 8192 (2 :: byte)\<rparr>"
  let ?c9 = "\<lparr>timestamp = 50, location = 4, size_c = 1, chunk_data = replicate 4096 (3 :: byte)\<rparr>"
  let ?B = "replicate 8192 (0 :: byte)"
  have wm: "writable ?m" and wb: "writable ?b" by (simp_all add: writable_def slot_key_def)
  have "8192 \<le> length ?B" by simp
  from read_file_long [OF this] obtain decoded where r: "read_file ?B = Inr decoded" by blast
  have lens: "length (replicate 4096 (1 :: byte)) = 4096 \<and>
              length (replicate 8192 (2 :: byte)) = 8192 \<and>
              length (replicate 4096 (3 :: byte)) = 4096" by simp
  note t = write_output_layout [where chunk_map = ?m and bytes_data = ?B and decoded = decoded
      and base = ?b and incoming = ?m and rule = MergeRuleNewestChunks
      and ?P1.0 = "replicate 4096 1" and ?P2.0 = "replicate 8192 2"
      and ?P3.0 = "replicate 4096 3" and ?l1.0 = 7 and ?l2.0 = 9 and ?l3.0 = 2]
  note t1 = t [THEN conjunct1, THEN mp, OF wm]
  note t2 = t [THEN conjunct2, THEN conjunct1, THEN mp, OF r]
  note t3 = t [THEN conjunct2, THEN conjunct2, THEN conjunct1, THEN mp, OF conjI [OF wb wm]]
  note t4 = t [THEN conjunct2, THEN conjunct2, THEN conjunct2, THEN mp, OF lens]
  from t1 obtain out where
    o: "write ?m = Inr (update_chunk_locations ?m, out)"
    and l: "int (length out) =
           8192 + Max (insert 0 ((\<lambda>(pos, c). (location c + size_c c - 2) * 4096) `
                                    set (update_chunk_locations ?m)))"
    and h: "\<forall>(pos, c)\<in>set (update_chunk_locations ?m).
            take 4 (drop pos out) = location_bytes c \<and>
            take 4 (drop (4096 + pos) out) = timestamp_bytes c \<and>
            entry_location out pos = location c \<and> entry_size out pos = size_c c"
    by blast
  have u: "update_chunk_locations ?m = [(20, ?c5), (36, ?c9)]"
    by (simp add: update_chunk_locations_def)
  from l have l': "int (length out) = 20480" unfolding u by simp
  from h have h5: "take 4 (drop 20 out) = location_bytes ?c5 \<and>
      entry_location out 20 = location ?c5 \<and> entry_size out 20 = size_c ?c5"
    and h9: "take 4 (drop 36 out) = location_bytes ?c9 \<and>
      entry_location out 36 = location ?c9 \<and> entry_size out 36 = size_c ?c9"
    unfolding u by simp_all
  from h5 h9 have hb: "take 4 (drop 20 out) = [0, 0, 2, 2] \<and> take 4 (drop 36 out) = [0, 0, 4, 1] \<and>
           entry_location out 20 = 2 \<and> entry_size out 20 = 2 \<and>
           entry_location out 36 = 4 \<and> entry_size out 36 = 1"
    by (simp add: location_bytes_def)
  from o l' hb have first: "\<exists>out. write ?m = Inr ([(20, ?c5), (36, ?c9)], out) \<and>
           int (length out) = 20480 \<and>
           take 4 (drop 20 out) = [0, 0, 2, 2] \<and> take 4 (drop 36 out) = [0, 0, 4, 1] \<and>
           entry_location out 20 = 2 \<and> entry_size out 20 = 2 \<and>
           entry_location out 36 = 4 \<and> entry_size out 36 = 1"
    unfolding u by (intro exI [of _ out] conjI) simp_all
  have wd: "writable decoded" by (rule t2)
  from r wd have dec: "\<exists>decoded. read_file ?B = Inr decoded \<and> writable decoded"
    by (intro exI [of _ decoded] conjI)
  have wmm: "writable (merge ?b ?m MergeRuleNewestChunks)" by (rule t3)
  have sc: "\<exists>out. write (merge ?b ?m MergeRuleNewestChunks) =
           Inr ([(20, ?c5), (36, ?c9)], out) \<and>
           length out = 20480 \<and>
           take 4 (drop 20 out) = [0, 0, 2, 2] \<and> take 4 (drop 36 out) = [0, 0, 4, 1] \<and>
           take 4 (drop 4116 out) = [0, 0, 0, 200] \<and>
           take 4 (drop 4132 out) = [0, 0, 0, 50] \<and>
           take 8192 (drop 8192 out) = replicate 8192 2 \<and>
           take 4096 (drop 16384 out) = replicate 4096 3"
    by (rule t4)
  show ?thesis
    by (rule conjI [OF wm conjI [OF first conjI [OF dec conjI [OF wmm
          conjI [OF conjunct1 [OF lens] conjI [OF conjunct1 [OF conjunct2 [OF lens]]
          conjI [OF conjunct2 [OF conjunct2 [OF lens]] sc]]]]]]])
qed

end
